theory Spec2Isabelle
  imports Main
begin

section \<open>Python values and exceptions\<close>

text \<open>
  The values that \<^verbatim>\<open>json.load\<close> produces and \<^verbatim>\<open>json.dump\<close> consumes: \<^verbatim>\<open>None\<close>,
  booleans, integers, strings, lists and dictionaries with string keys. A dictionary is an
  association list; a lookup takes the first binding of a key. JSON numbers are integers
  here (no claim depends on a fractional number).
\<close>

datatype pyval =
    PyNone
  | PyBool bool
  | PyInt int
  | PyStr string
  | PyList "pyval list"
  | PyDict "(string \<times> pyval) list"

type_synonym dict = "(string \<times> pyval) list"

text \<open>
  The two messages with which \<^verbatim>\<open>Tree.__init__\<close> raises \<^verbatim>\<open>IncompatibleFormatError\<close>: the
  file is too new (the message carries the file's major version), or it is invalid.
\<close>

datatype format_problem = TooNew int | InvalidFile

datatype error =
    AssertionError
  | IndexError
  | ValueError
  | AttributeError
  | TypeError
  | RecursionError
  | JSONDecodeError
  | FileNotFoundError
  | SaveError
  | SelectionError
  | TreemendousError
  | IncompatibleFormatError format_problem

text \<open>\<^verbatim>\<open>d.get(k)\<close> is \<^verbatim>\<open>None\<close> for a missing key; \<^verbatim>\<open>d.get(k, default)\<close> is the default.\<close>

definition dict_get_default :: "dict \<Rightarrow> string \<Rightarrow> pyval \<Rightarrow> pyval" where
  "dict_get_default d k dflt = (case map_of d k of None \<Rightarrow> dflt | Some v \<Rightarrow> v)"

definition dict_get :: "dict \<Rightarrow> string \<Rightarrow> pyval" where
  "dict_get d k = dict_get_default d k PyNone"

text \<open>Running a list of fallible computations in order, stopping at the first error.\<close>

fun collect :: "(error + 'a) list \<Rightarrow> error + 'a list" where
  "collect [] = Inr []"
| "collect (r # rs) =
     (case r of
        Inl e \<Rightarrow> Inl e
      | Inr x \<Rightarrow> (case collect rs of Inl e \<Rightarrow> Inl e | Inr xs \<Rightarrow> Inr (x # xs)))"

section \<open>Node objects on a heap\<close>

text \<open>
  A \<^verbatim>\<open>Node\<close> object has the four attributes that \<^verbatim>\<open>Node.__init__\<close> sets. Objects are
  compared by identity (the class defines no \<^verbatim>\<open>__eq__\<close>), so \<^verbatim>\<open>children\<close> holds references
  and \<^verbatim>\<open>parent\<close> an optional reference. The heap is the list of all objects made so far; a
  reference is a position in it. Python is untyped: \<^verbatim>\<open>label\<close> and \<^verbatim>\<open>value\<close> hold whatever
  they were given, \<^verbatim>\<open>None\<close> when absent. The field \<open>val\<close> is the attribute \<^verbatim>\<open>value\<close>.
\<close>

type_synonym addr = nat

record node =
  label :: pyval
  val :: pyval
  children :: "addr list"
  parent :: "addr option"

type_synonym heap = "node list"

text \<open>\<^verbatim>\<open>Node(label, value)\<close>: a new object with no children and no parent.\<close>

definition Node_init :: "heap \<Rightarrow> pyval \<Rightarrow> pyval \<Rightarrow> heap \<times> addr" where
  "Node_init h l v =
     (h @ [\<lparr>label = l, val = v, children = [], parent = None\<rparr>], length h)"

text \<open>
  \<^verbatim>\<open>self.add_child(c)\<close>: the assertion, then \<^verbatim>\<open>self.children.append(c)\<close>, then
  \<^verbatim>\<open>c.parent = self\<close>, in this order.
\<close>

definition add_child :: "heap \<Rightarrow> addr \<Rightarrow> addr \<Rightarrow> error + heap" where
  "add_child h self c =
     (if parent (h ! c) \<noteq> None then Inl AssertionError
      else
        let h1 = h[self := (h ! self)\<lparr>children := children (h ! self) @ [c]\<rparr>]
        in Inr (h1[c := (h1 ! c)\<lparr>parent := Some self\<rparr>]))"

text \<open>
  \<^verbatim>\<open>self.to_dict()\<close>. The recursion follows the \<^verbatim>\<open>children\<close> references, which on an
  arbitrary heap may form a cycle; the first argument is the recursion depth that is left,
  and CPython raises \<^verbatim>\<open>RecursionError\<close> when it is used up.
\<close>

fun to_dict :: "nat \<Rightarrow> heap \<Rightarrow> addr \<Rightarrow> error + pyval" where
  "to_dict 0 h self = Inl RecursionError"
| "to_dict (Suc d) h self =
     (case collect (map (to_dict d h) (children (h ! self))) of
        Inl e \<Rightarrow> Inl e
      | Inr cs \<Rightarrow>
          Inr (PyDict [(''label'', label (h ! self)),
                       (''value'', val (h ! self)),
                       (''children'', PyList cs)]))"

text \<open>
  What the loop \<^verbatim>\<open>for c in data.get("children", [])\<close> of \<^verbatim>\<open>Node.from_dict\<close> iterates over.
  A list gives its elements, a string its characters (strings of length one), a dictionary
  its keys. \<^verbatim>\<open>None\<close>, booleans and integers are not iterable.
\<close>

fun iter_children :: "pyval \<Rightarrow> error + pyval list" where
  "iter_children (PyList cs) = Inr cs"
| "iter_children (PyStr s) = Inr (map (\<lambda>c. PyStr [c]) s)"
| "iter_children (PyDict kvs) = Inr (map (\<lambda>kv. PyStr (fst kv)) kvs)"
| "iter_children PyNone = Inl TypeError"
| "iter_children (PyBool b) = Inl TypeError"
| "iter_children (PyInt i) = Inl TypeError"

text \<open>
  \<^verbatim>\<open>Node.from_dict(data)\<close>: the new object, then one \<^verbatim>\<open>add_child\<close> per decoded child, in
  the order of the list. \<^verbatim>\<open>data.get\<close> on anything but a dictionary raises
  \<^verbatim>\<open>AttributeError\<close>. As for \<^verbatim>\<open>to_dict\<close>, the first argument is the recursion depth that
  is left: every nested call uses one level, and CPython raises \<^verbatim>\<open>RecursionError\<close> when
  none is left.
\<close>

fun from_dict :: "nat \<Rightarrow> heap \<Rightarrow> pyval \<Rightarrow> error + heap \<times> addr"
  and from_dict_children :: "nat \<Rightarrow> heap \<Rightarrow> addr \<Rightarrow> pyval list \<Rightarrow> error + heap"
where
  "from_dict 0 h data = Inl RecursionError"
| "from_dict (Suc d) h (PyDict kvs) =
     (case iter_children (dict_get_default kvs ''children'' (PyList [])) of
        Inl e \<Rightarrow> Inl e
      | Inr cs \<Rightarrow>
          (case from_dict_children d
                  (fst (Node_init h (dict_get kvs ''label'') (dict_get kvs ''value'')))
                  (snd (Node_init h (dict_get kvs ''label'') (dict_get kvs ''value''))) cs of
             Inl e \<Rightarrow> Inl e
           | Inr h' \<Rightarrow>
               Inr (h', snd (Node_init h (dict_get kvs ''label'') (dict_get kvs ''value'')))))"
| "from_dict (Suc d) h PyNone = Inl AttributeError"
| "from_dict (Suc d) h (PyBool b) = Inl AttributeError"
| "from_dict (Suc d) h (PyInt i) = Inl AttributeError"
| "from_dict (Suc d) h (PyStr s) = Inl AttributeError"
| "from_dict (Suc d) h (PyList xs) = Inl AttributeError"
| "from_dict_children d h res [] = Inr h"
| "from_dict_children d h res (c # cs) =
     (case from_dict d h c of
        Inl e \<Rightarrow> Inl e
      | Inr (h1, child) \<Rightarrow>
          (case add_child h1 res child of
             Inl e \<Rightarrow> Inl e
           | Inr h2 \<Rightarrow> from_dict_children d h2 res cs))"

section \<open>Trees as values\<close>

text \<open>
  The tree that a node object and its descendants form, as a value: label, value and the
  children in order. \<open>node_at d h a\<close> reads it off the heap below the object \<open>a\<close>; it is
  \<open>None\<close> when a reference leaves the heap or the depth \<open>d\<close> does not reach all leaves
  (as on a cyclic heap). It serves to state properties of the code and models none of it.
\<close>

datatype ntree = NTree pyval pyval "ntree list"

fun node_at :: "nat \<Rightarrow> heap \<Rightarrow> addr \<Rightarrow> ntree option" where
  "node_at 0 h a = None"
| "node_at (Suc d) h a =
     (if a < length h then
        (case those (map (node_at d h) (children (h ! a))) of
           None \<Rightarrow> None
         | Some ts \<Rightarrow> Some (NTree (label (h ! a)) (val (h ! a)) ts))
      else None)"

fun height :: "ntree \<Rightarrow> nat" where
  "height (NTree l v ts) = Suc (fold max (map height ts) 0)"

text \<open>The nested record \<open>{label, value, children}\<close> of a tree value.\<close>

fun to_record :: "ntree \<Rightarrow> pyval" where
  "to_record (NTree l v ts) =
     PyDict [(''label'', l), (''value'', v), (''children'', PyList (map to_record ts))]"

text \<open>
  \<open>built h h' t\<close>: the heap \<open>h'\<close> extends \<open>h\<close> by objects that form the tree \<open>t\<close>, rooted at
  the first new object, which has no parent; the new objects refer to new objects only.
\<close>

definition built :: "heap \<Rightarrow> heap \<Rightarrow> ntree \<Rightarrow> bool" where
  "built h h' t \<longleftrightarrow>
     length h < length h' \<and> (\<forall>x < length h. h' ! x = h ! x) \<and>
     parent (h' ! length h) = None \<and>
     (\<forall>x. length h \<le> x \<and> x < length h' \<longrightarrow>
          (\<forall>c \<in> set (children (h' ! x)). length h \<le> c \<and> c < length h')) \<and>
     (\<forall>d. height t \<le> d \<longrightarrow> node_at d h' (length h) = Some t)"

text \<open>
  \<open>grown h r h' as ts\<close>: the state of the loop of \<^verbatim>\<open>from_dict\<close> after some iterations
  that started on the heap \<open>h\<close> with the object \<open>r\<close> under construction: the new objects
  \<open>as\<close> are the roots of the trees \<open>ts\<close> and were appended to the children of \<open>r\<close>; no
  other old object has changed.
\<close>

definition grown :: "heap \<Rightarrow> addr \<Rightarrow> heap \<Rightarrow> addr list \<Rightarrow> ntree list \<Rightarrow> bool" where
  "grown h r h' as ts \<longleftrightarrow>
     length h \<le> length h' \<and>
     (\<forall>x < length h. x \<noteq> r \<longrightarrow> h' ! x = h ! x) \<and>
     h' ! r = (h ! r)\<lparr>children := children (h ! r) @ as\<rparr> \<and>
     (\<forall>x. length h \<le> x \<and> x < length h' \<longrightarrow>
          (\<forall>c \<in> set (children (h' ! x)). length h \<le> c \<and> c < length h')) \<and>
     (\<forall>a \<in> set as. length h \<le> a \<and> a < length h') \<and>
     list_all2 (\<lambda>a t. \<forall>d. height t \<le> d \<longrightarrow> node_at d h' a = Some t) as ts"


text \<open>The tree of the unit tests: \<^verbatim>\<open>TP\<close> with the children \<^verbatim>\<open>DP\<close> and \<^verbatim>\<open>T<bar/>\<close>.\<close>

definition example_heap :: heap where
  "example_heap =
     [\<lparr>label = PyStr ''TP'', val = PyNone, children = [1, 2], parent = None\<rparr>,
      \<lparr>label = PyStr ''DP'', val = PyNone, children = [], parent = Some 0\<rparr>,
      \<lparr>label = PyStr ''T<bar/>'', val = PyNone, children = [], parent = Some 0\<rparr>]"

definition example_tree :: ntree where
  "example_tree =
     NTree (PyStr ''TP'') PyNone
       [NTree (PyStr ''DP'') PyNone [], NTree (PyStr ''T<bar/>'') PyNone []]"

text \<open>
  Two separate trees: \<^verbatim>\<open>DP\<close> with its child \<^verbatim>\<open>N\<close>, and \<^verbatim>\<open>NP\<close> with its child \<^verbatim>\<open>A\<close>, as
  when a copied subtree is pasted as the parent of \<^verbatim>\<open>N\<close>.
\<close>

definition paste_heap :: heap where
  "paste_heap =
     [\<lparr>label = PyStr ''DP'', val = PyNone, children = [1], parent = None\<rparr>,
      \<lparr>label = PyStr ''N'', val = PyStr ''cactus'', children = [], parent = Some 0\<rparr>,
      \<lparr>label = PyStr ''NP'', val = PyNone, children = [3], parent = None\<rparr>,
      \<lparr>label = PyStr ''A'', val = PyStr ''tall'', children = [], parent = Some 2\<rparr>]"

section \<open>Python list operations\<close>

text \<open>\<^verbatim>\<open>xs.index(x)\<close>: the first position of \<open>x\<close>, \<^verbatim>\<open>ValueError\<close> when there is none.\<close>

fun list_index :: "'a list \<Rightarrow> 'a \<Rightarrow> error + nat" where
  "list_index [] x = Inl ValueError"
| "list_index (y # ys) x =
     (if y = x then Inr 0
      else (case list_index ys x of Inl e \<Rightarrow> Inl e | Inr i \<Rightarrow> Inr (Suc i)))"

text \<open>\<^verbatim>\<open>xs.remove(x)\<close>: without the first occurrence of \<open>x\<close>, \<^verbatim>\<open>ValueError\<close> when there is none.\<close>

definition list_remove :: "'a list \<Rightarrow> 'a \<Rightarrow> error + 'a list" where
  "list_remove xs x = (if x \<in> set xs then Inr (remove1 x xs) else Inl ValueError)"

text \<open>
  \<^verbatim>\<open>xs.pop(i)\<close> and \<^verbatim>\<open>del xs[i]\<close> for an index \<open>i \<ge> 0\<close> (the code takes it from
  \<^verbatim>\<open>index\<close>): the element and the rest; \<^verbatim>\<open>IndexError\<close> out of range.
\<close>

definition list_pop :: "'a list \<Rightarrow> nat \<Rightarrow> error + 'a \<times> 'a list" where
  "list_pop xs i =
     (if i < length xs then Inr (xs ! i, take i xs @ drop (Suc i) xs) else Inl IndexError)"

text \<open>
  \<^verbatim>\<open>xs.insert(i, x)\<close> never raises: a negative index counts from the end, and an index
  beyond either end is moved to that end.
\<close>

definition list_insert :: "'a list \<Rightarrow> int \<Rightarrow> 'a \<Rightarrow> 'a list" where
  "list_insert xs i x =
     (let n = int (length xs);
          j = (if i < 0 then max 0 (i + n) else min i n)
      in take (nat j) xs @ [x] @ drop (nat j) xs)"

section \<open>Detaching a node and inserting a parent\<close>

text \<open>
  \<^verbatim>\<open>Node.delete\<close>: the assertion, then \<^verbatim>\<open>self.parent.children.remove(self)\<close>. Nothing
  else is assigned.
\<close>

definition delete :: "heap \<Rightarrow> addr \<Rightarrow> error + heap" where
  "delete h self =
     (case parent (h ! self) of
        None \<Rightarrow> Inl AssertionError
      | Some p \<Rightarrow>
          (case list_remove (children (h ! p)) self of
             Inl e \<Rightarrow> Inl e
           | Inr cs \<Rightarrow> Inr (h[p := (h ! p)\<lparr>children := cs\<rparr>])))"

text \<open>
  \<^verbatim>\<open>self.add_parent(node)\<close>, statement by statement: the two assertions, the position
  \<open>i\<close> of \<open>self\<close> among its parent's children, \<^verbatim>\<open>node.parent = self.parent\<close>,
  \<^verbatim>\<open>del self.parent.children[i]\<close>, \<^verbatim>\<open>self.parent.children.insert(i, node)\<close>,
  \<^verbatim>\<open>self.parent = None\<close> and \<^verbatim>\<open>node.add_child(self)\<close>.
\<close>

definition add_parent :: "heap \<Rightarrow> addr \<Rightarrow> addr \<Rightarrow> error + heap" where
  "add_parent h self nd =
     (case parent (h ! self) of
        None \<Rightarrow> Inl AssertionError
      | Some p \<Rightarrow>
          if parent (h ! nd) \<noteq> None then Inl AssertionError
          else
            (case list_index (children (h ! p)) self of
               Inl e \<Rightarrow> Inl e
             | Inr i \<Rightarrow>
                 let h1 = h[nd := (h ! nd)\<lparr>parent := Some p\<rparr>]
                 in (case list_pop (children (h1 ! p)) i of
                       Inl e \<Rightarrow> Inl e
                     | Inr (x, cs) \<Rightarrow>
                         let h2 = h1[p := (h1 ! p)\<lparr>children := cs\<rparr>];
                             h3 = h2[p := (h2 ! p)\<lparr>children :=
                                         list_insert (children (h2 ! p)) (int i) nd\<rparr>];
                             h4 = h3[self := (h3 ! self)\<lparr>parent := None\<rparr>]
                         in add_child h4 nd self)))"

section \<open>The document\<close>

text \<open>
  A \<^verbatim>\<open>Tree\<close> object has five attributes. What lives outside it is the world: the heap of
  node objects, the module variable \<^verbatim>\<open>_pasteboard\<close> (\<^verbatim>\<open>None\<close> at first) and the files.
\<close>

record tree =
  dirty :: bool
  last_path :: string
  selection :: "addr option"
  manifest :: dict
  root :: "addr option"

text \<open>
  A file is a zip archive with its entries \<^verbatim>\<open>manifest.json\<close> and \<^verbatim>\<open>tree.json\<close>, or
  something that \<^verbatim>\<open>zipfile\<close> rejects. An entry is missing, or holds text that is not JSON,
  or holds a JSON value. The manifest value is a JSON object, as the format has it.
\<close>

datatype 'a entry = Missing | Garbled | Payload 'a

datatype disk_file = NotZip | Zip "dict entry" "pyval entry"

record world =
  heap :: heap
  pasteboard :: pyval
  files :: "(string \<times> disk_file) list"

text \<open>
  Assignment to a key of a dictionary (and writing a file under a path): an existing
  binding is replaced where it stands, a new one is added at the end.
\<close>

fun assoc_set :: "('k \<times> 'v) list \<Rightarrow> 'k \<Rightarrow> 'v \<Rightarrow> ('k \<times> 'v) list" where
  "assoc_set [] k v = [(k, v)]"
| "assoc_set ((k', v') # kvs) k v =
     (if k' = k then (k, v) # kvs else (k', v') # assoc_set kvs k v)"

text \<open>\<^verbatim>\<open>d.update(m)\<close> for a dictionary \<open>m\<close>.\<close>

definition dict_update :: "dict \<Rightarrow> dict \<Rightarrow> dict" where
  "dict_update d m = fold (\<lambda>kv d'. assoc_set d' (fst kv) (snd kv)) m d"

text \<open>
  \<^verbatim>\<open>Tree.copy\<close>. The first argument is the recursion depth available to \<^verbatim>\<open>to_dict\<close>.
  Every method of \<^verbatim>\<open>Tree\<close> returns the document and the world as it leaves them.
\<close>

definition copy :: "nat \<Rightarrow> tree \<Rightarrow> world \<Rightarrow> error + tree \<times> world" where
  "copy d t w =
     (case selection t of
        None \<Rightarrow> Inl SelectionError
      | Some s \<Rightarrow>
          (case to_dict d (heap w) s of
             Inl e \<Rightarrow> Inl e
           | Inr rcd \<Rightarrow> Inr (t, w\<lparr>pasteboard := rcd\<rparr>)))"

text \<open>
  \<^verbatim>\<open>Tree._shift(direction)\<close>. A node object is always true, so \<^verbatim>\<open>not self.selection\<close>
  holds for \<^verbatim>\<open>None\<close> only. \<^verbatim>\<open>t\<close> is the list object \<^verbatim>\<open>self.selection.parent.children\<close>,
  changed in place by \<^verbatim>\<open>t.insert(new, t.pop(old))\<close>: the pop comes first, so the insertion
  is into the list without the selection.
\<close>

definition shift :: "tree \<Rightarrow> world \<Rightarrow> int \<Rightarrow> error + tree \<times> world" where
  "shift t w direction =
     (case selection t of
        None \<Rightarrow> Inl SelectionError
      | Some s \<Rightarrow>
          if selection t = root t then Inl TreemendousError
          else
            (case parent (heap w ! s) of
               None \<Rightarrow> Inl AttributeError
             | Some p \<Rightarrow>
                 (case list_index (children (heap w ! p)) s of
                    Inl e \<Rightarrow> Inl e
                  | Inr old \<Rightarrow>
                      (case list_pop (children (heap w ! p)) old of
                         Inl e \<Rightarrow> Inl e
                       | Inr (x, rest) \<Rightarrow>
                           Inr (t\<lparr>dirty := True\<rparr>,
                                w\<lparr>heap := (heap w)[p := (heap w ! p)\<lparr>children :=
                                     list_insert rest (int old + direction) x\<rparr>]\<rparr>)))))"

definition move_up :: "tree \<Rightarrow> world \<Rightarrow> error + tree \<times> world" where
  "move_up t w = shift t w (- 1)"

definition move_down :: "tree \<Rightarrow> world \<Rightarrow> error + tree \<times> world" where
  "move_down t w = shift t w 1"

section \<open>Saving and loading\<close>

text \<open>\<^verbatim>\<open>__version__\<close> and \<^verbatim>\<open>DEFAULT_MANIFEST\<close>.\<close>

definition version :: string where
  "version = ''1.0.0rc3''"

definition DEFAULT_MANIFEST :: dict where
  "DEFAULT_MANIFEST = [(''version'', PyStr version)]"

text \<open>\<^verbatim>\<open>s.split(".")[0]\<close>: the text before the first dot, all of \<open>s\<close> when it has none.\<close>

definition major_part :: "string \<Rightarrow> string" where
  "major_part s = takeWhile (\<lambda>c. c \<noteq> CHR ''.'') s"

text \<open>
  \<^verbatim>\<open>int(s)\<close> for a string: white space around is dropped (tab, line feed, vertical tab,
  form feed, carriage return and space; the separators \<open>0x1C\<close> to \<open>0x1F\<close> are not white
  space for \<^verbatim>\<open>int\<close>); then an optional sign; then decimal digits, where single underscores
  may stand between digits. Anything else raises \<^verbatim>\<open>ValueError\<close>. So does a string of too
  many digits: \<open>lim\<close> is the interpreter's \<^verbatim>\<open>sys.get_int_max_str_digits()\<close> (4300 unless
  configured, 0 where there is no limit), which applies to more than 640 digits, leading
  zeros counted and underscores not. Strings are ASCII here: characters are bytes.
\<close>

definition is_space :: "char \<Rightarrow> bool" where
  "is_space c \<longleftrightarrow> (of_char c :: nat) \<in> {9, 10, 11, 12, 13, 32}"

definition is_digit :: "char \<Rightarrow> bool" where
  "is_digit c \<longleftrightarrow> 48 \<le> (of_char c :: nat) \<and> (of_char c :: nat) \<le> 57"

definition strip :: "string \<Rightarrow> string" where
  "strip s = rev (dropWhile is_space (rev (dropWhile is_space s)))"

fun digits_ok :: "string \<Rightarrow> bool" where
  "digits_ok [] = False"
| "digits_ok [c] = is_digit c"
| "digits_ok (c # c' # cs) =
     (is_digit c \<and> (if c' = CHR ''_'' then digits_ok cs else digits_ok (c' # cs)))"

definition decimal :: "string \<Rightarrow> int" where
  "decimal s = fold (\<lambda>c n. 10 * n + (int (of_char c) - 48)) (filter is_digit s) 0"

definition too_many_digits :: "nat \<Rightarrow> string \<Rightarrow> bool" where
  "too_many_digits lim ds \<longleftrightarrow>
     640 < length (filter is_digit ds) \<and> 0 < lim \<and> lim < length (filter is_digit ds)"

definition unsigned :: "nat \<Rightarrow> string \<Rightarrow> error + int" where
  "unsigned lim ds =
     (if digits_ok ds \<and> \<not> too_many_digits lim ds then Inr (decimal ds) else Inl ValueError)"

definition py_int :: "nat \<Rightarrow> string \<Rightarrow> error + int" where
  "py_int lim s =
     (case strip s of
        [] \<Rightarrow> Inl ValueError
      | c # cs \<Rightarrow>
          if c = CHR ''-''
          then (case unsigned lim cs of Inl e \<Rightarrow> Inl e | Inr n \<Rightarrow> Inr (- n))
          else if c = CHR ''+'' then unsigned lim cs
          else unsigned lim (c # cs))"

text \<open>
  \<^verbatim>\<open>Tree(path)\<close>. Without a path (or with an empty one) the document is empty. With one,
  the archive is opened and its manifest read into the default manifest; the major
  versions are compared; only then is \<^verbatim>\<open>tree.json\<close> opened and decoded. Inside the
  \<^verbatim>\<open>try\<close>, \<^verbatim>\<open>BadZipFile\<close> (not an archive) and \<^verbatim>\<open>KeyError\<close> (an entry is missing) become
  \<^verbatim>\<open>IncompatibleFormatError\<close>; every other exception passes. \<^verbatim>\<open>split\<close> exists on strings
  only, so a version that is not a string raises \<^verbatim>\<open>AttributeError\<close>. The first two
  arguments are the recursion depth available to \<^verbatim>\<open>from_dict\<close> and the interpreter's
  limit on the digits of \<^verbatim>\<open>int\<close>.
\<close>

definition Tree_init ::
  "nat \<Rightarrow> nat \<Rightarrow> string option \<Rightarrow> world \<Rightarrow> error + tree \<times> world" where
  "Tree_init d lim path w =
     (let p = (case path of None \<Rightarrow> [] | Some q \<Rightarrow> q);
          t0 = \<lparr>dirty = False, last_path = p, selection = None,
                manifest = DEFAULT_MANIFEST, root = None\<rparr>
      in if p = [] then Inr (t0, w)
         else
           (case map_of (files w) p of
              None \<Rightarrow> Inl FileNotFoundError
            | Some NotZip \<Rightarrow> Inl (IncompatibleFormatError InvalidFile)
            | Some (Zip manifest_json tree_json) \<Rightarrow>
                (case manifest_json of
                   Missing \<Rightarrow> Inl (IncompatibleFormatError InvalidFile)
                 | Garbled \<Rightarrow> Inl JSONDecodeError
                 | Payload m \<Rightarrow>
                     let t1 = t0\<lparr>manifest := dict_update (manifest t0) m\<rparr>
                     in (case py_int lim (major_part version) of
                           Inl e \<Rightarrow> Inl e
                         | Inr my_major \<Rightarrow>
                             (case dict_get (manifest t1) ''version'' of
                                PyStr v \<Rightarrow>
                                  (case py_int lim (major_part v) of
                                     Inl e \<Rightarrow> Inl e
                                   | Inr their_major \<Rightarrow>
                                       if my_major < their_major
                                       then Inl (IncompatibleFormatError (TooNew their_major))
                                       else
                                         (case tree_json of
                                            Missing \<Rightarrow> Inl (IncompatibleFormatError InvalidFile)
                                          | Garbled \<Rightarrow> Inl JSONDecodeError
                                          | Payload rcd \<Rightarrow>
                                              (case from_dict d (heap w) rcd of
                                                 Inl e \<Rightarrow> Inl e
                                               | Inr (h', r) \<Rightarrow>
                                                   Inr (t1\<lparr>root := Some r\<rparr>, w\<lparr>heap := h'\<rparr>))))
                              | _ \<Rightarrow> Inl AttributeError)))))"

text \<open>\<^verbatim>\<open>s.endswith(suffix)\<close>.\<close>

definition endswith :: "string \<Rightarrow> string \<Rightarrow> bool" where
  "endswith s suffix \<longleftrightarrow>
     length suffix \<le> length s \<and> drop (length s - length suffix) s = suffix"

text \<open>
  \<^verbatim>\<open>Tree.save(path)\<close>. For a path that ends in \<^verbatim>\<open>.gv\<close> or \<^verbatim>\<open>.png\<close> the method calls
  \<^verbatim>\<open>self.root.to_graphviz\<close> (on an empty document \<^verbatim>\<open>None\<close> has no such method) and hands
  over to the graphviz package; what that does is not followed further. It assigns no
  attribute of the document. Otherwise the archive is written: \<^verbatim>\<open>tree.json\<close> from \<^verbatim>\<open>self.root.to_dict()\<close> (on an
  empty document \<^verbatim>\<open>None\<close> has no such method), and \<^verbatim>\<open>manifest.json\<close> from
  \<^verbatim>\<open>self.manifest\<close>. The first argument is the recursion depth available to \<^verbatim>\<open>to_dict\<close>.
  Where an exception is raised the result is the exception alone: what the method had
  written before it is not recorded. Every path can be written to.
\<close>

datatype save_result = Graphviz_export | Container_saved tree world

definition save :: "nat \<Rightarrow> tree \<Rightarrow> string option \<Rightarrow> world \<Rightarrow> error + save_result" where
  "save d t path w =
     (let q = (case path of None \<Rightarrow> [] | Some q' \<Rightarrow> q')
      in if q = [] \<and> last_path t = [] then Inl SaveError
         else
           let p = (if q = [] then last_path t else q)
           in if endswith p ''.gv'' \<or> endswith p ''.png''
              then (case root t of None \<Rightarrow> Inl AttributeError | Some r \<Rightarrow> Inr Graphviz_export)
              else
                (case root t of
                   None \<Rightarrow> Inl AttributeError
                 | Some r \<Rightarrow>
                     (case to_dict d (heap w) r of
                        Inl e \<Rightarrow> Inl e
                      | Inr rcd \<Rightarrow>
                          Inr (Container_saved
                                 (t\<lparr>dirty := False, last_path := p\<rparr>)
                                 (w\<lparr>files := assoc_set (files w) p
                                       (Zip (Payload (manifest t)) (Payload rcd))\<rparr>)))))"

section \<open>The markup translator\<close>

text \<open>
  The attributes that \<^verbatim>\<open>GVParser.reset\<close> sets. The two deques are lists whose last
  element is the top.
\<close>

record parser =
  valid :: bool
  tag_stack :: "string list"
  math_stack :: "string list"
  tex :: string
  data :: string

definition backslash :: char where
  "backslash = CHR 0x5C"

definition TEX_MAP :: "(string \<times> string) list" where
  "TEX_MAP =
     [(''b'', backslash # ''textbf{''),
      (''i'', backslash # ''textit{''),
      (''u'', backslash # ''underline{''),
      (''sup'', ''^{''),
      (''sub'', ''_{''),
      (''null'', ''{'' @ backslash # ''O''),
      (''bar'', ''^{'' @ backslash # ''prime'')]"

definition MATHMODE_REQUIRED :: "string list" where
  "MATHMODE_REQUIRED = [''sup'', ''sub'', ''null'', ''bar'']"

definition SPECIALS :: "string list" where
  "SPECIALS = [''null'', ''bar'']"

text \<open>\<^verbatim>\<open>s.capitalize()\<close> on ASCII: the first letter in upper case, the others in lower case.\<close>

definition upper :: "char \<Rightarrow> char" where
  "upper c = (if 97 \<le> (of_char c :: nat) \<and> (of_char c :: nat) \<le> 122
              then char_of (of_char c - 32 :: nat) else c)"

definition lower :: "char \<Rightarrow> char" where
  "lower c = (if 65 \<le> (of_char c :: nat) \<and> (of_char c :: nat) \<le> 90
              then char_of (of_char c + 32 :: nat) else c)"

definition capitalize :: "string \<Rightarrow> string" where
  "capitalize s = (case s of [] \<Rightarrow> [] | c # cs \<Rightarrow> upper c # map lower cs)"

definition reset :: parser where
  "reset = \<lparr>valid = True, tag_stack = [], math_stack = [], tex = [], data = []\<rparr>"

text \<open>An attribute of a tag: its name and its value, if it has one.\<close>

type_synonym attrs = "(string \<times> string option) list"

definition handle_starttag :: "parser \<Rightarrow> string \<Rightarrow> attrs \<Rightarrow> parser" where
  "handle_starttag p tag ats =
     (let p1 = (if ats \<noteq> [] then p\<lparr>valid := False\<rparr> else p);
          p2 = (case map_of TEX_MAP tag of
                  None \<Rightarrow> p1\<lparr>valid := False, tex := tex p1 @ ''<'' @ tag @ ''>''\<rparr>
                | Some open_text \<Rightarrow>
                    let p3 = p1\<lparr>tag_stack := tag_stack p1 @ [tag]\<rparr>;
                        p4 = (if tag \<in> set MATHMODE_REQUIRED
                              then
                                (let p5 = (if math_stack p3 = []
                                           then p3\<lparr>tex := tex p3 @ ''$''\<rparr> else p3)
                                 in p5\<lparr>math_stack := math_stack p5 @ [tag]\<rparr>)
                              else p3)
                    in p4\<lparr>tex := tex p4 @ open_text\<rparr>)
      in if tag \<in> set SPECIALS then p2\<lparr>data := data p2 @ capitalize tag\<rparr> else p2)"

text \<open>
  \<^verbatim>\<open>handle_endtag\<close>. The pop of the tag stack is inside \<^verbatim>\<open>try\<close>, so an empty stack sets
  \<^verbatim>\<open>valid\<close> to false; otherwise \<^verbatim>\<open>valid\<close> is assigned whether the popped tag is a key of
  \<^verbatim>\<open>TEX_MAP\<close>. The pop of the math stack is not inside a \<^verbatim>\<open>try\<close>.
\<close>

definition handle_endtag :: "parser \<Rightarrow> string \<Rightarrow> error + parser" where
  "handle_endtag p tag =
     (let p1 = (if tag_stack p = [] then p\<lparr>valid := False\<rparr>
                else p\<lparr>valid := (map_of TEX_MAP (last (tag_stack p)) \<noteq> None),
                       tag_stack := butlast (tag_stack p)\<rparr>);
          p2 = (if map_of TEX_MAP tag \<noteq> None then p1\<lparr>tex := tex p1 @ ''}''\<rparr>
                else p1\<lparr>tex := tex p1 @ ''</'' @ tag @ ''>''\<rparr>)
      in if tag \<in> set MATHMODE_REQUIRED
         then
           (if math_stack p2 = [] then Inl IndexError
            else
              let p3 = p2\<lparr>math_stack := butlast (math_stack p2)\<rparr>
              in Inr (if math_stack p3 = [] then p3\<lparr>tex := tex p3 @ ''$''\<rparr> else p3))
         else Inr p2)"

definition handle_data :: "parser \<Rightarrow> string \<Rightarrow> parser" where
  "handle_data p s = p\<lparr>tex := tex p @ s, data := data p @ s\<rparr>"

text \<open>
  What \<^verbatim>\<open>HTMLParser.feed\<close> finds in its input, in order, and the handler it calls for
  each: a start tag, an end tag, a tag of the form \<^verbatim>\<open><t/>\<close> (the inherited
  \<^verbatim>\<open>handle_startendtag\<close> calls \<^verbatim>\<open>handle_starttag\<close> and then \<^verbatim>\<open>handle_endtag\<close>), text, and
  comments, declarations and processing instructions, whose inherited handlers do
  nothing. Tag names arrive in lower case.
\<close>

datatype event =
    StartTag string attrs
  | EndTag string
  | StartEndTag string attrs
  | Data string
  | Ignored

fun dispatch :: "parser \<Rightarrow> event \<Rightarrow> error + parser" where
  "dispatch p (StartTag tag ats) = Inr (handle_starttag p tag ats)"
| "dispatch p (EndTag tag) = handle_endtag p tag"
| "dispatch p (StartEndTag tag ats) = handle_endtag (handle_starttag p tag ats) tag"
| "dispatch p (Data s) = Inr (handle_data p s)"
| "dispatch p Ignored = Inr p"

fun feed :: "parser \<Rightarrow> event list \<Rightarrow> error + parser" where
  "feed p [] = Inr p"
| "feed p (ev # evs) = (case dispatch p ev of Inl e \<Rightarrow> Inl e | Inr p' \<Rightarrow> feed p' evs)"

text \<open>
  \<^verbatim>\<open>GVParser.close\<close>: the check for unclosed tags, then \<^verbatim>\<open>HTMLParser.close\<close>, which goes
  through the text that \<^verbatim>\<open>feed\<close> has held back (an unfinished tag, comment or character
  reference and what follows it) and calls the handlers for what it finds there: \<open>held\<close>
  is the list of these events, empty when nothing was held back.
\<close>

definition close :: "parser \<Rightarrow> event list \<Rightarrow> error + parser" where
  "close p held = feed (if tag_stack p \<noteq> [] then p\<lparr>valid := False\<rparr> else p) held"

text \<open>
  The sequence \<^verbatim>\<open>parser.reset(); parser.feed(text); parser.close()\<close> of the exporters,
  for a text in which \<^verbatim>\<open>feed\<close> finds the events \<open>evs\<close> and \<^verbatim>\<open>close\<close> the events \<open>held\<close>.
\<close>

definition translate :: "event list \<Rightarrow> event list \<Rightarrow> error + parser" where
  "translate evs held =
     (case feed reset evs of Inl e \<Rightarrow> Inl e | Inr p \<Rightarrow> close p held)"

section \<open>The translation as the specification describes it\<close>

text \<open>
  What follows is written from the words of the specification and uses none of the
  tables of the code. The vocabulary is bold, italic, underline, superscript, subscript,
  null symbol and prime; the last four require math mode. Each tag has an opening text
  in the target markup, and a closing brace ends it.
\<close>

definition vocabulary :: "string list" where
  "vocabulary = [''b'', ''i'', ''u'', ''sup'', ''sub'', ''null'', ''bar'']"

definition math_tags :: "string list" where
  "math_tags = [''sup'', ''sub'', ''null'', ''bar'']"

definition target_open :: "string \<Rightarrow> string" where
  "target_open tag =
     (if tag = ''b'' then CHR 0x5C # ''textbf{''
      else if tag = ''i'' then CHR 0x5C # ''textit{''
      else if tag = ''u'' then CHR 0x5C # ''underline{''
      else if tag = ''sup'' then ''^{''
      else if tag = ''sub'' then ''_{''
      else if tag = ''null'' then ''{'' @ CHR 0x5C # ''O''
      else if tag = ''bar'' then ''^{'' @ CHR 0x5C # ''prime''
      else [])"

text \<open>
  Markup with every tag closed by its own end tag, as a forest: text, an element with its
  content, an element of the form \<^verbatim>\<open><t/>\<close>, or a comment (or declaration); and the
  events of its text.
\<close>

datatype markup = Text string | Elem string "markup list" | Empty string | Comment

fun events :: "markup \<Rightarrow> event list" where
  "events (Text s) = [Data s]"
| "events (Elem tag ms) = StartTag tag [] # concat (map events ms) @ [EndTag tag]"
| "events (Empty tag) = [StartEndTag tag []]"
| "events Comment = [Ignored]"

fun recognized :: "markup \<Rightarrow> bool" where
  "recognized (Text s) = True"
| "recognized (Elem tag ms) = (tag \<in> set vocabulary \<and> list_all recognized ms)"
| "recognized (Empty tag) = (tag \<in> set vocabulary)"
| "recognized Comment = True"

text \<open>
  \<open>render m\<close> is the text for markup that stands inside math mode (\<open>m\<close> true) or outside:
  a tag gives its opening text, its content and a closing brace; a tag that requires math
  mode is put between dollar signs exactly when it stands outside math mode, and its
  content stands inside.
\<close>

definition delimiter :: "bool \<Rightarrow> string \<Rightarrow> string" where
  "delimiter m tag = (if tag \<in> set math_tags \<and> \<not> m then ''$'' else [])"

fun render :: "bool \<Rightarrow> markup \<Rightarrow> string" where
  "render m (Text s) = s"
| "render m (Elem tag ms) =
     delimiter m tag @ target_open tag
       @ concat (map (render (m \<or> tag \<in> set math_tags)) ms)
       @ ''}'' @ delimiter m tag"
| "render m (Empty tag) = delimiter m tag @ target_open tag @ ''}'' @ delimiter m tag"
| "render m Comment = []"

text \<open>
  Valid input as the specification defines it, on the events and with the stack of open
  tags (the top first): every tag is in the vocabulary and has no attributes, every end
  tag is the tag on top of the stack, and no tag is open at the end.
\<close>

fun well_nested :: "string list \<Rightarrow> event list \<Rightarrow> bool" where
  "well_nested st [] = (st = [])"
| "well_nested st (StartTag tag ats # evs) =
     (ats = [] \<and> tag \<in> set vocabulary \<and> well_nested (tag # st) evs)"
| "well_nested st (EndTag tag # evs) =
     (case st of [] \<Rightarrow> False | tg # st' \<Rightarrow> tg = tag \<and> well_nested st' evs)"
| "well_nested st (StartEndTag tag ats # evs) =
     (ats = [] \<and> tag \<in> set vocabulary \<and> well_nested st evs)"
| "well_nested st (Data s # evs) = well_nested st evs"
| "well_nested st (Ignored # evs) = well_nested st evs"

text \<open>
  Reading the forest off valid events: \<open>cur\<close> is the content read so far of the innermost
  open element, and the stack holds, for every open element, its tag and the content of
  its parent read before it.
\<close>

fun parse :: "(string \<times> markup list) list \<Rightarrow> markup list \<Rightarrow> event list \<Rightarrow> markup list option"
where
  "parse st cur [] = (if st = [] then Some cur else None)"
| "parse st cur (StartTag tag ats # evs) =
     (if ats = [] \<and> tag \<in> set vocabulary then parse ((tag, cur) # st) [] evs else None)"
| "parse st cur (EndTag tag # evs) =
     (case st of
        [] \<Rightarrow> None
      | (tg, outer) # st' \<Rightarrow>
          if tg = tag then parse st' (outer @ [Elem tag cur]) evs else None)"
| "parse st cur (StartEndTag tag ats # evs) =
     (if ats = [] \<and> tag \<in> set vocabulary then parse st (cur @ [Empty tag]) evs else None)"
| "parse st cur (Data s # evs) = parse st (cur @ [Text s]) evs"
| "parse st cur (Ignored # evs) = parse st (cur @ [Comment]) evs"

fun unwind :: "(string \<times> markup list) list \<Rightarrow> event list \<Rightarrow> event list" where
  "unwind [] evs = evs"
| "unwind ((tag, outer) # st) evs =
     unwind st (concat (map events outer) @ StartTag tag [] # evs)"

text \<open>
  \<open>advanced p p' s\<close>: what the translator has done to its state after a piece of valid
  markup: the stacks are as before and \<open>s\<close> has been appended to the output.
\<close>

definition advanced :: "parser \<Rightarrow> parser \<Rightarrow> string \<Rightarrow> bool" where
  "advanced p p' s \<longleftrightarrow>
     tag_stack p' = tag_stack p \<and> math_stack p' = math_stack p \<and>
     tex p' = tex p @ s \<and> (valid p \<longrightarrow> valid p')"

text \<open>
  \<open>tracks st p\<close>: the state of the translator while valid input is read, \<open>st\<close> being the open
  tags (the top first): its tag stack holds them, its math stack those of them that
  require math mode, and \<open>valid\<close> is true whenever no tag is open.
\<close>

definition tracks :: "string list \<Rightarrow> parser \<Rightarrow> bool" where
  "tracks st p \<longleftrightarrow>
     tag_stack p = rev st \<and>
     math_stack p = filter (\<lambda>t. t \<in> set math_tags) (rev st) \<and>
     list_all (\<lambda>t. t \<in> set vocabulary) st \<and>
     (st = [] \<longrightarrow> valid p)"

text \<open>\<open>same_output p q\<close>: two states of the translator that differ in \<open>valid\<close> at most.\<close>

definition same_output :: "parser \<Rightarrow> parser \<Rightarrow> bool" where
  "same_output p q \<longleftrightarrow>
     tag_stack p = tag_stack q \<and> math_stack p = math_stack q \<and> tex p = tex q \<and>
     data p = data q"

text \<open>
  The events of \<^verbatim>\<open>x<sup>a<sub>b</sub><bar/></sup><b>c</b><null/>\<close>.
\<close>

definition nested_math :: "event list" where
  "nested_math =
     [Data ''x'', StartTag ''sup'' [], Data ''a'', StartTag ''sub'' [], Data ''b'',
      EndTag ''sub'', StartEndTag ''bar'' [], EndTag ''sup'', StartTag ''b'' [], Data ''c'',
      EndTag ''b'', StartEndTag ''null'' []]"

section \<open>Example documents\<close>

text \<open>
  A root \<^verbatim>\<open>S\<close> with the three children \<^verbatim>\<open>A\<close>, \<^verbatim>\<open>B\<close> and \<^verbatim>\<open>C\<close>, and a document on it whose
  selection is the node \<open>s\<close>.
\<close>

definition siblings_heap :: heap where
  "siblings_heap =
     [\<lparr>label = PyStr ''S'', val = PyNone, children = [1, 2, 3], parent = None\<rparr>,
      \<lparr>label = PyStr ''A'', val = PyNone, children = [], parent = Some 0\<rparr>,
      \<lparr>label = PyStr ''B'', val = PyNone, children = [], parent = Some 0\<rparr>,
      \<lparr>label = PyStr ''C'', val = PyNone, children = [], parent = Some 0\<rparr>]"

definition siblings_world :: world where
  "siblings_world = \<lparr>heap = siblings_heap, pasteboard = PyNone, files = []\<rparr>"

definition siblings_tree :: "addr \<Rightarrow> tree" where
  "siblings_tree s =
     \<lparr>dirty = False, last_path = [], selection = Some s,
      manifest = DEFAULT_MANIFEST, root = Some 0\<rparr>"

text \<open>
  A container written by version 0.9.0, and one written by version 2.1.0 whose
  \<^verbatim>\<open>tree.json\<close> is missing.
\<close>

definition old_world :: world where
  "old_world =
     \<lparr>heap = [], pasteboard = PyNone,
      files = [(''old.treemendous'',
                Zip (Payload [(''version'', PyStr ''0.9.0'')])
                    (Payload (PyDict [(''label'', PyStr ''TP'')])))]\<rparr>"


text \<open>
  A document on the tree of the unit tests, with the root selected.
\<close>

definition example_world :: world where
  "example_world = \<lparr>heap = example_heap, pasteboard = PyNone, files = []\<rparr>"

definition example_doc :: tree where
  "example_doc =
     \<lparr>dirty = True, last_path = [], selection = Some 0,
      manifest = DEFAULT_MANIFEST, root = Some 0\<rparr>"

text \<open>
  The document loaded from the container of version 0.9.0, and the world after it has
  been saved again.
\<close>

definition loaded_tree :: tree where
  "loaded_tree =
     \<lparr>dirty = False, last_path = ''old.treemendous'', selection = None,
      manifest = [(''version'', PyStr ''0.9.0'')], root = Some 0\<rparr>"

definition loaded_world :: world where
  "loaded_world =
     old_world\<lparr>heap := [\<lparr>label = PyStr ''TP'', val = PyNone, children = [], parent = None\<rparr>]\<rparr>"

definition saved_world :: world where
  "saved_world =
     loaded_world\<lparr>files :=
       [(''old.treemendous'',
         Zip (Payload [(''version'', PyStr ''0.9.0'')])
             (Payload (PyDict [(''label'', PyStr ''TP''), (''value'', PyNone),
                               (''children'', PyList [])])))]\<rparr>"

section \<open>Editing the document\<close>

datatype Location = CHILD | PARENT | SIBLING

text \<open>
  \<^verbatim>\<open>Tree._add(where, new)\<close>. The document is empty when \<^verbatim>\<open>self.root\<close> is \<^verbatim>\<open>None\<close> (a node
  object is always true). \<^verbatim>\<open>self.selection.parent.add_child\<close> on a selection without a
  parent raises \<^verbatim>\<open>AttributeError\<close>.
\<close>

definition add_new :: "tree \<Rightarrow> world \<Rightarrow> Location \<Rightarrow> addr \<Rightarrow> error + tree \<times> world" where
  "add_new t w loc new =
     (case root t of
        None \<Rightarrow> Inr (t\<lparr>root := Some new, selection := Some new, dirty := True\<rparr>, w)
      | Some r \<Rightarrow>
          (case selection t of
             None \<Rightarrow> Inl SelectionError
           | Some s \<Rightarrow>
               (case loc of
                  CHILD \<Rightarrow>
                    (case add_child (heap w) s new of
                       Inl e \<Rightarrow> Inl e
                     | Inr h \<Rightarrow> Inr (t\<lparr>selection := Some new, dirty := True\<rparr>, w\<lparr>heap := h\<rparr>))
                | PARENT \<Rightarrow>
                    if s = r
                    then (case add_child (heap w) new r of
                            Inl e \<Rightarrow> Inl e
                          | Inr h \<Rightarrow>
                              Inr (t\<lparr>root := Some new, selection := Some new, dirty := True\<rparr>,
                                   w\<lparr>heap := h\<rparr>))
                    else (case add_parent (heap w) s new of
                            Inl e \<Rightarrow> Inl e
                          | Inr h \<Rightarrow>
                              Inr (t\<lparr>selection := Some new, dirty := True\<rparr>, w\<lparr>heap := h\<rparr>))
                | SIBLING \<Rightarrow>
                    if s = r then Inl TreemendousError
                    else (case parent (heap w ! s) of
                            None \<Rightarrow> Inl AttributeError
                          | Some p \<Rightarrow>
                              (case add_child (heap w) p new of
                                 Inl e \<Rightarrow> Inl e
                               | Inr h \<Rightarrow>
                                   Inr (t\<lparr>selection := Some new, dirty := True\<rparr>,
                                        w\<lparr>heap := h\<rparr>))))))"

text \<open>
  An optional string as an attribute of a node, where \<^verbatim>\<open>Tree.add\<close> and \<^verbatim>\<open>Tree.edit\<close> have
  replaced the empty string by \<^verbatim>\<open>None\<close>.
\<close>

definition field_of :: "string option \<Rightarrow> pyval" where
  "field_of x = (case x of None \<Rightarrow> PyNone | Some s \<Rightarrow> if s = [] then PyNone else PyStr s)"

text \<open>\<^verbatim>\<open>Tree.add(where, label, value)\<close>: a new node object, then \<^verbatim>\<open>_add\<close>.\<close>

definition add ::
  "tree \<Rightarrow> world \<Rightarrow> Location \<Rightarrow> string option \<Rightarrow> string option \<Rightarrow> error + tree \<times> world" where
  "add t w loc lbl vl =
     add_new t (w\<lparr>heap := fst (Node_init (heap w) (field_of lbl) (field_of vl))\<rparr>) loc
       (snd (Node_init (heap w) (field_of lbl) (field_of vl)))"

text \<open>
  \<^verbatim>\<open>Tree.edit(label, value)\<close>: first the label, if one is given, then the value. An
  assignment to an attribute of \<^verbatim>\<open>None\<close> (no selection) raises \<^verbatim>\<open>AttributeError\<close>.
\<close>

definition edit_label :: "tree \<Rightarrow> world \<Rightarrow> string option \<Rightarrow> error + tree \<times> world" where
  "edit_label t w lbl =
     (case lbl of
        None \<Rightarrow> Inr (t, w)
      | Some l \<Rightarrow>
          (case selection t of
             None \<Rightarrow> Inl AttributeError
           | Some s \<Rightarrow>
               Inr (t\<lparr>dirty := True\<rparr>,
                    w\<lparr>heap := (heap w)[s := (heap w ! s)\<lparr>label := field_of lbl\<rparr>]\<rparr>)))"

definition edit_value :: "tree \<Rightarrow> world \<Rightarrow> string option \<Rightarrow> error + tree \<times> world" where
  "edit_value t w vl =
     (case vl of
        None \<Rightarrow> Inr (t, w)
      | Some v \<Rightarrow>
          (case selection t of
             None \<Rightarrow> Inl AttributeError
           | Some s \<Rightarrow>
               Inr (t\<lparr>dirty := True\<rparr>,
                    w\<lparr>heap := (heap w)[s := (heap w ! s)\<lparr>val := field_of vl\<rparr>]\<rparr>)))"

definition edit ::
  "tree \<Rightarrow> world \<Rightarrow> string option \<Rightarrow> string option \<Rightarrow> error + tree \<times> world" where
  "edit t w lbl vl =
     (case edit_label t w lbl of Inl e \<Rightarrow> Inl e | Inr (t1, w1) \<Rightarrow> edit_value t1 w1 vl)"

text \<open>
  \<^verbatim>\<open>Tree.delete\<close>. On the root only \<^verbatim>\<open>self.root\<close> is cleared; otherwise the selection
  moves to the parent before \<^verbatim>\<open>Node.delete\<close> runs.
\<close>

definition Tree_delete :: "tree \<Rightarrow> world \<Rightarrow> error + tree \<times> world" where
  "Tree_delete t w =
     (case selection t of
        None \<Rightarrow> Inl SelectionError
      | Some n \<Rightarrow>
          if selection t = root t then Inr (t\<lparr>root := None, dirty := True\<rparr>, w)
          else (case delete (heap w) n of
                  Inl e \<Rightarrow> Inl e
                | Inr h \<Rightarrow>
                    Inr (t\<lparr>selection := parent (heap w ! n), dirty := True\<rparr>,
                         w\<lparr>heap := h\<rparr>)))"

text \<open>The truth value of a Python value, as \<^verbatim>\<open>not _pasteboard\<close> takes it.\<close>

fun truthy :: "pyval \<Rightarrow> bool" where
  "truthy PyNone = False"
| "truthy (PyBool b) = b"
| "truthy (PyInt i) = (i \<noteq> 0)"
| "truthy (PyStr s) = (s \<noteq> [])"
| "truthy (PyList xs) = (xs \<noteq> [])"
| "truthy (PyDict kvs) = (kvs \<noteq> [])"

text \<open>\<^verbatim>\<open>Tree.paste(where)\<close>: a fresh tree decoded from the pasteboard, then \<^verbatim>\<open>_add\<close>.\<close>

definition paste :: "nat \<Rightarrow> tree \<Rightarrow> world \<Rightarrow> Location \<Rightarrow> error + tree \<times> world" where
  "paste d t w loc =
     (if \<not> truthy (pasteboard w) then Inl SelectionError
      else (case from_dict d (heap w) (pasteboard w) of
              Inl e \<Rightarrow> Inl e
            | Inr (h, new) \<Rightarrow> add_new t (w\<lparr>heap := h\<rparr>) loc new))"

text \<open>The setter of the property \<^verbatim>\<open>notes\<close>.\<close>

definition set_notes :: "tree \<Rightarrow> string \<Rightarrow> tree" where
  "set_notes t new = t\<lparr>manifest := assoc_set (manifest t) ''notes'' (PyStr new), dirty := True\<rparr>"

text \<open>
  The ways in which a caller changes a document: the methods of \<^verbatim>\<open>Tree\<close>, the setter of
  \<^verbatim>\<open>notes\<close>, and the assignment \<^verbatim>\<open>tree.selection = node\<close> that the window makes when an
  item is selected; and a sequence of such calls, each of which returns. A save that is an
  export to graphviz changes no attribute of the document; which files the graphviz
  package then writes is not known here, so the call names the files as it leaves them.
\<close>

datatype operation =
    Add Location "string option" "string option"
  | Edit "string option" "string option"
  | Delete
  | Copy
  | Paste Location
  | MoveUp
  | MoveDown
  | SetNotes string
  | Select "addr option"
  | Save "string option" "(string \<times> disk_file) list"

fun apply_op :: "nat \<Rightarrow> operation \<Rightarrow> tree \<Rightarrow> world \<Rightarrow> error + tree \<times> world" where
  "apply_op d (Add loc lbl vl) t w = add t w loc lbl vl"
| "apply_op d (Edit lbl vl) t w = edit t w lbl vl"
| "apply_op d Delete t w = Tree_delete t w"
| "apply_op d Copy t w = copy d t w"
| "apply_op d (Paste loc) t w = paste d t w loc"
| "apply_op d MoveUp t w = move_up t w"
| "apply_op d MoveDown t w = move_down t w"
| "apply_op d (SetNotes new) t w = Inr (set_notes t new, w)"
| "apply_op d (Select s) t w = Inr (t\<lparr>selection := s\<rparr>, w)"
| "apply_op d (Save path exported) t w =
     (case save d t path w of
        Inl e \<Rightarrow> Inl e
      | Inr Graphviz_export \<Rightarrow> Inr (t, w\<lparr>files := exported\<rparr>)
      | Inr (Container_saved t' w') \<Rightarrow> Inr (t', w'))"

fun run :: "nat \<Rightarrow> operation list \<Rightarrow> tree \<Rightarrow> world \<Rightarrow> error + tree \<times> world" where
  "run d [] t w = Inr (t, w)"
| "run d (x # xs) t w =
     (case apply_op d x t w of Inl e \<Rightarrow> Inl e | Inr (t', w') \<Rightarrow> run d xs t' w')"

section \<open>Example edits\<close>

text \<open>
  A document created empty; the same after a node has been added and notes have been
  entered; and after it has been saved.
\<close>

definition empty_world :: world where
  "empty_world = \<lparr>heap = [], pasteboard = PyNone, files = []\<rparr>"

definition empty_doc :: tree where
  "empty_doc =
     \<lparr>dirty = False, last_path = [], selection = None, manifest = DEFAULT_MANIFEST,
      root = None\<rparr>"

definition edited_doc :: tree where
  "edited_doc =
     \<lparr>dirty = True, last_path = [], selection = Some 0,
      manifest = [(''version'', PyStr version), (''notes'', PyStr ''a phrase'')],
      root = Some 0\<rparr>"

definition edited_world :: world where
  "edited_world =
     \<lparr>heap = [\<lparr>label = PyStr ''TP'', val = PyNone, children = [], parent = None\<rparr>],
      pasteboard = PyNone, files = []\<rparr>"

definition new_saved_doc :: tree where
  "new_saved_doc = edited_doc\<lparr>dirty := False, last_path := ''new.treemendous''\<rparr>"

definition new_saved_world :: world where
  "new_saved_world =
     edited_world\<lparr>files :=
       [(''new.treemendous'',
         Zip (Payload [(''version'', PyStr version), (''notes'', PyStr ''a phrase'')])
             (Payload (PyDict [(''label'', PyStr ''TP''), (''value'', PyNone),
                               (''children'', PyList [])])))]\<rparr>"

text \<open>
  The document loaded from the container of version 0.9.0 after notes have been entered,
  and the world after it has been saved.
\<close>

definition noted_tree :: tree where
  "noted_tree =
     \<lparr>dirty = True, last_path = ''old.treemendous'', selection = None,
      manifest = [(''version'', PyStr ''0.9.0''), (''notes'', PyStr ''seen'')],
      root = Some 0\<rparr>"

definition noted_saved_world :: world where
  "noted_saved_world =
     loaded_world\<lparr>files :=
       [(''old.treemendous'',
         Zip (Payload [(''version'', PyStr ''0.9.0''), (''notes'', PyStr ''seen'')])
             (Payload (PyDict [(''label'', PyStr ''TP''), (''value'', PyNone),
                               (''children'', PyList [])])))]\<rparr>"

section \<open>Encoding and decoding a tree\<close>

lemma collect_those:
  "those (map f xs) = Some ts \<Longrightarrow> (\<And>x t. x \<in> set xs \<Longrightarrow> f x = Some t \<Longrightarrow> g x = Inr (r t))
   \<Longrightarrow> collect (map g xs) = Inr (map r ts)"
proof (induction xs arbitrary: ts)
  case Nil
  then show ?case by simp
next
  case (Cons x xs)
  from Cons.prems(1) obtain t ts' where fx: "f x = Some t"
    and rest: "those (map f xs) = Some ts'" and ts: "ts = t # ts'"
    by (auto split: option.splits)
  from Cons.prems(2) [of x t] fx have gx: "g x = Inr (r t)" by simp
  have "collect (map g xs) = Inr (map r ts')"
    using Cons.IH [OF rest] Cons.prems(2) by simp
  with gx ts show ?case by simp
qed

lemma to_dict_node_at:
  "node_at d h a = Some t \<Longrightarrow> to_dict d h a = Inr (to_record t)"
proof (induction d arbitrary: a t)
  case 0
  then show ?case by simp
next
  case (Suc d)
  from Suc.prems obtain ts where
    ts: "those (map (node_at d h) (children (h ! a))) = Some ts"
    and t: "t = NTree (label (h ! a)) (val (h ! a)) ts"
    by (auto split: if_splits option.splits)
  have "collect (map (to_dict d h) (children (h ! a))) = Inr (map to_record ts)"
    using ts Suc.IH by (rule collect_those)
  with t show ?case by simp
qed

lemma those_map_cong:
  "(\<And>x. x \<in> set xs \<Longrightarrow> f x = g x) \<Longrightarrow> those (map f xs) = those (map g xs)"
  by (induction xs) (auto split: option.splits)

lemma node_at_frame:
  assumes "\<And>x. x \<in> S \<Longrightarrow> x < length h \<and> x < length h' \<and> label (h' ! x) = label (h ! x) \<and>
              val (h' ! x) = val (h ! x) \<and> children (h' ! x) = children (h ! x) \<and>
              set (children (h ! x)) \<subseteq> S"
  shows "a \<in> S \<Longrightarrow> node_at d h' a = node_at d h a"
proof (induction d arbitrary: a)
  case 0
  then show ?case by simp
next
  case (Suc d)
  have len: "a < length h" "a < length h'"
    and lbl: "label (h' ! a) = label (h ! a)" and vl: "val (h' ! a) = val (h ! a)"
    and ch: "children (h' ! a) = children (h ! a)" and sub: "set (children (h ! a)) \<subseteq> S"
    using assms [OF Suc.prems] by simp_all
  have "those (map (node_at d h') (children (h ! a))) = those (map (node_at d h) (children (h ! a)))"
    using sub Suc.IH by (intro those_map_cong) auto
  then show ?case by (simp add: len lbl vl ch split: option.splits)
qed

lemma fold_max_ge: "x \<le> fold max xs (x::nat)"
proof (induction xs arbitrary: x)
  case Nil
  then show ?case by simp
next
  case (Cons z zs)
  have "x \<le> max z x" by simp
  also have "max z x \<le> fold max zs (max z x)" by (rule Cons.IH)
  finally show ?case by simp
qed

lemma fold_max_mem: "y \<in> set xs \<Longrightarrow> y \<le> fold max xs (x::nat)"
proof (induction xs arbitrary: x)
  case Nil
  then show ?case by simp
next
  case (Cons z zs)
  show ?case
  proof (cases "y = z")
    case True
    have "z \<le> max z x" by simp
    also have "max z x \<le> fold max zs (max z x)" by (rule fold_max_ge)
    finally show ?thesis using True by simp
  next
    case False
    with Cons show ?thesis by simp
  qed
qed

lemma those_list_all2:
  "list_all2 (\<lambda>a t. f a = Some t) as ts \<Longrightarrow> those (map f as) = Some ts"
  by (induction as ts rule: list_all2_induct) auto


lemma grown_Nil: "r < length h \<Longrightarrow> grown h r h [] []"
  by (simp add: grown_def)

lemma builtD:
  assumes b: "built h h1 t"
  shows "length h < length h1" 
    and "\<And>x. x < length h \<Longrightarrow> h1 ! x = h ! x"
    and "\<And>x c. length h \<le> x \<Longrightarrow> x < length h1 \<Longrightarrow> c \<in> set (children (h1 ! x))
                    \<Longrightarrow> length h \<le> c \<and> c < length h1"
    and "\<And>d. height t \<le> d \<Longrightarrow> node_at d h1 (length h) = Some t"
  using b unfolding built_def by blast+

lemma grownD:
  assumes g: "grown h2 r h' as ts"
  shows "length h2 \<le> length h'"
    and "\<And>x. x < length h2 \<Longrightarrow> x \<noteq> r \<Longrightarrow> h' ! x = h2 ! x"
    and "h' ! r = (h2 ! r)\<lparr>children := children (h2 ! r) @ as\<rparr>"
    and "\<And>x c. length h2 \<le> x \<Longrightarrow> x < length h' \<Longrightarrow> c \<in> set (children (h' ! x))
                    \<Longrightarrow> length h2 \<le> c \<and> c < length h'"
    and "\<And>a. a \<in> set as \<Longrightarrow> length h2 \<le> a \<and> a < length h'"
    and "list_all2 (\<lambda>a t. \<forall>d. height t \<le> d \<longrightarrow> node_at d h' a = Some t) as ts"
  using g unfolding grown_def by blast+

lemma grown_step:
  assumes r: "r < length h"
    and b: "built h h1 t"
    and h2: "h2 = (h1[r := (h1 ! r)\<lparr>children := children (h1 ! r) @ [length h]\<rparr>])
                    [length h := (h1 ! length h)\<lparr>parent := Some r\<rparr>]"
    and g: "grown h2 r h' as ts"
  shows "grown h r h' (length h # as) (t # ts)"
proof -
  note len1 = builtD(1) [OF b] and old1 = builtD(2) [OF b]
    and closed1 = builtD(3) [OF b] and tree1 = builtD(4) [OF b]
  have len2: "length h2 = length h1" by (simp add: h2)
  have h2r: "h2 ! r = (h ! r)\<lparr>children := children (h ! r) @ [length h]\<rparr>"
    using r len1 old1 [OF r] by (simp add: h2)
  have h2old: "h2 ! x = h ! x" if "x < length h" "x \<noteq> r" for x
    using that len1 old1 [OF that(1)] by (simp add: h2)
  have h2new: "label (h2 ! x) = label (h1 ! x) \<and> val (h2 ! x) = val (h1 ! x) \<and>
               children (h2 ! x) = children (h1 ! x)"
    if "length h \<le> x" "x < length h1" for x
    using that r by (cases "x = length h") (simp_all add: h2)
  note len' = grownD(1) [OF g] and keep = grownD(2) [OF g] and h'r = grownD(3) [OF g]
    and closed' = grownD(4) [OF g] and as = grownD(5) [OF g] and trees = grownD(6) [OF g]
  have shape: "label (h' ! x) = label (h1 ! x) \<and> val (h' ! x) = val (h1 ! x) \<and>
               children (h' ! x) = children (h1 ! x)"
    if "length h \<le> x" "x < length h1" for x
  proof -
    from that r have "x \<noteq> r" by simp
    with keep [of x] that len2 have "h' ! x = h2 ! x" by simp
    with h2new [OF that] show ?thesis by simp
  qed
  have frame: "node_at d h' (length h) = node_at d h1 (length h)" for d
  proof (rule node_at_frame [where S = "{length h..<length h1}"])
    fix x assume "x \<in> {length h..<length h1}"
    then have x: "length h \<le> x" "x < length h1" by simp_all
    with shape [OF x] closed1 [OF x] len' len2
    show "x < length h1 \<and> x < length h' \<and> label (h' ! x) = label (h1 ! x) \<and>
          val (h' ! x) = val (h1 ! x) \<and> children (h' ! x) = children (h1 ! x) \<and>
          set (children (h1 ! x)) \<subseteq> {length h..<length h1}"
      by auto
  next
    show "length h \<in> {length h..<length h1}" using len1 by simp
  qed
  have c1: "length h \<le> length h'" using len1 len2 len' by simp
  have c2: "\<forall>x < length h. x \<noteq> r \<longrightarrow> h' ! x = h ! x"
    using keep h2old len1 len2 by simp
  have c3: "h' ! r = (h ! r)\<lparr>children := children (h ! r) @ (length h # as)\<rparr>"
    using h'r h2r by simp
  have c4: "\<forall>x. length h \<le> x \<and> x < length h' \<longrightarrow>
          (\<forall>c \<in> set (children (h' ! x)). length h \<le> c \<and> c < length h')"
  proof (intro allI impI ballI)
    fix x c assume x: "length h \<le> x \<and> x < length h'" and c: "c \<in> set (children (h' ! x))"
    show "length h \<le> c \<and> c < length h'"
    proof (cases "x < length h1")
      case True
      with x shape [of x] c have "c \<in> set (children (h1 ! x))" by simp
      with closed1 [of x c] x True len' len2 show ?thesis by simp
    next
      case False
      with closed' [of x c] x c len2 len1 show ?thesis by simp
    qed
  qed
  have c5: "\<forall>a \<in> set (length h # as). length h \<le> a \<and> a < length h'"
  proof (intro ballI)
    fix a assume "a \<in> set (length h # as)"
    then consider "a = length h" | "a \<in> set as" by auto
    then show "length h \<le> a \<and> a < length h'"
    proof cases
      case 1
      with len1 len2 len' show ?thesis by simp
    next
      case 2
      from as [OF 2] len1 len2 show ?thesis by simp
    qed
  qed
  have c6: "list_all2 (\<lambda>a t. \<forall>d. height t \<le> d \<longrightarrow> node_at d h' a = Some t)
              (length h # as) (t # ts)"
    using trees tree1 frame by simp
  from c1 c2 c3 c4 c5 c6 show ?thesis unfolding grown_def by blast
qed

lemma from_dict_children_grown:
  assumes IH: "\<And>t h. t \<in> set ts \<Longrightarrow>
                 \<exists>h'. from_dict d h (to_record t) = Inr (h', length h) \<and> built h h' t"
  shows "r < length h \<Longrightarrow>
         \<exists>h' as. from_dict_children d h r (map to_record ts) = Inr h' \<and> grown h r h' as ts"
  using IH
proof (induction ts arbitrary: h)
  case Nil
  then show ?case using grown_Nil by auto
next
  case (Cons t ts)
  from Cons.prems(2) [of t h] obtain h1 where
    fd: "from_dict d h (to_record t) = Inr (h1, length h)" and b: "built h h1 t"
    by auto
  define h2 where "h2 = (h1[r := (h1 ! r)\<lparr>children := children (h1 ! r) @ [length h]\<rparr>])
                    [length h := (h1 ! length h)\<lparr>parent := Some r\<rparr>]"
  from b have len1: "length h < length h1" and nopar: "parent (h1 ! length h) = None"
    unfolding built_def by blast+
  have ac: "add_child h1 r (length h) = Inr h2"
    using nopar Cons.prems(1) len1 by (simp add: add_child_def Let_def h2_def)
  have "r < length h2" using Cons.prems(1) len1 by (simp add: h2_def)
  from Cons.IH [OF this] Cons.prems(2) obtain h' as where
    rest: "from_dict_children d h2 r (map to_record ts) = Inr h'" and g: "grown h2 r h' as ts"
    by auto
  have "from_dict_children d h r (map to_record (t # ts)) = Inr h'"
    using fd ac rest by simp
  moreover have "grown h r h' (length h # as) (t # ts)"
    by (rule grown_step [OF Cons.prems(1) b h2_def g])
  ultimately show ?case by blast
qed

lemma height_children: "t \<in> set ts \<Longrightarrow> height t \<le> fold max (map height ts) 0"
  by (rule fold_max_mem) simp

lemma from_dict_built:
  "height t \<le> d \<Longrightarrow> \<exists>h'. from_dict d h (to_record t) = Inr (h', length h) \<and> built h h' t"
proof (induction t arbitrary: d h)
  case (NTree l v ts)
  from NTree.prems obtain d0 where d0: "d = Suc d0" and below: "fold max (map height ts) 0 \<le> d0"
    by (cases d) auto
  have deep: "height t \<le> d0" if "t \<in> set ts" for t
    using height_children [OF that] below by simp
  define h0 where "h0 = h @ [\<lparr>label = l, val = v, children = [], parent = None\<rparr>]"
  have r: "length h < length h0" by (simp add: h0_def)
  have "\<exists>h' as. from_dict_children d0 h0 (length h) (map to_record ts) = Inr h'
           \<and> grown h0 (length h) h' as ts"
    using NTree.IH deep r by (intro from_dict_children_grown) auto
  then obtain h' as where
    loop: "from_dict_children d0 h0 (length h) (map to_record ts) = Inr h'"
    and g: "grown h0 (length h) h' as ts"
    by auto
  note len' = grownD(1) [OF g] and keep = grownD(2) [OF g] and root = grownD(3) [OF g]
    and closed' = grownD(4) [OF g] and as = grownD(5) [OF g] and trees = grownD(6) [OF g]
  have root': "h' ! length h = \<lparr>label = l, val = v, children = as, parent = None\<rparr>"
    using root by (simp add: h0_def)
  have fd: "from_dict d (h :: heap) (to_record (NTree l v ts)) = Inr (h', length h)"
    using loop by (simp add: d0 dict_get_default_def dict_get_def Node_init_def h0_def)
  have b1: "length h < length h'" using r len' by simp
  have b2: "\<forall>i < length h. h' ! i = h ! i"
  proof (intro allI impI)
    fix i assume i: "i < length h"
    with keep [of i] have "h' ! i = h0 ! i" by (simp add: h0_def)
    with i show "h' ! i = h ! i" by (simp add: h0_def nth_append)
  qed
  have b3: "parent (h' ! length h) = None" using root' by simp
  have b4: "\<forall>x. length h \<le> x \<and> x < length h' \<longrightarrow>
          (\<forall>c \<in> set (children (h' ! x)). length h \<le> c \<and> c < length h')"
  proof (intro allI impI ballI)
    fix x c assume x: "length h \<le> x \<and> x < length h'" and c: "c \<in> set (children (h' ! x))"
    show "length h \<le> c \<and> c < length h'"
    proof (cases "x = length h")
      case True
      with c root' have "c \<in> set as" by simp
      from as [OF this] show ?thesis by (simp add: h0_def)
    next
      case False
      with x have "length h0 \<le> x" by (simp add: h0_def)
      from closed' [OF this _ c] x show ?thesis by (simp add: h0_def)
    qed
  qed
  have b5: "\<forall>d. height (NTree l v ts) \<le> d \<longrightarrow> node_at d h' (length h) = Some (NTree l v ts)"
  proof (intro allI impI)
    fix d assume "height (NTree l v ts) \<le> d"
    then obtain d' where d: "d = Suc d'" and d': "fold max (map height ts) 0 \<le> d'"
      by (cases d) auto
    have "list_all2 (\<lambda>a t. node_at d' h' a = Some t) as ts"
      using trees
    proof (rule list.rel_mono_strong)
      fix a t assume "a \<in> set as" "t \<in> set ts"
        and *: "\<forall>d. height t \<le> d \<longrightarrow> node_at d h' a = Some t"
      from height_children [OF \<open>t \<in> set ts\<close>] d' have "height t \<le> d'" by simp
      with * show "node_at d' h' a = Some t" by simp
    qed
    then have "those (map (node_at d' h') as) = Some ts" by (rule those_list_all2)
    with b1 root' show "node_at d h' (length h) = Some (NTree l v ts)"
      by (simp add: d)
  qed
  from b1 b2 b3 b4 b5 have "built h h' (NTree l v ts)" unfolding built_def by blast
  with fd show ?case by blast
qed

lemma fold_max_le: "(\<And>y. y \<in> set xs \<Longrightarrow> y \<le> m) \<Longrightarrow> x \<le> m \<Longrightarrow> fold max xs (x::nat) \<le> m"
  by (induction xs arbitrary: x) auto

lemma those_map_mem:
  "those (map f xs) = Some ts \<Longrightarrow> t \<in> set ts \<Longrightarrow> \<exists>x \<in> set xs. f x = Some t"
proof (induction xs arbitrary: ts)
  case Nil
  then show ?case by simp
next
  case (Cons x xs)
  from Cons.prems(1) obtain t' ts' where fx: "f x = Some t'"
    and rest: "those (map f xs) = Some ts'" and ts: "ts = t' # ts'"
    by (auto split: option.splits)
  show ?case
  proof (cases "t = t'")
    case True
    with fx show ?thesis by simp
  next
    case False
    with Cons.prems(2) ts have "t \<in> set ts'" by simp
    from Cons.IH [OF rest this] show ?thesis by auto
  qed
qed

lemma node_at_height: "node_at d h a = Some t \<Longrightarrow> height t \<le> d"
proof (induction d arbitrary: a t)
  case 0
  then show ?case by simp
next
  case (Suc d)
  from Suc.prems obtain ts where
    ts: "those (map (node_at d h) (children (h ! a))) = Some ts"
    and t: "t = NTree (label (h ! a)) (val (h ! a)) ts"
    by (auto split: if_splits option.splits)
  have "fold max (map height ts) 0 \<le> d"
  proof (rule fold_max_le)
    fix y assume "y \<in> set (map height ts)"
    then obtain t' where t': "t' \<in> set ts" and y: "y = height t'" by auto
    from those_map_mem [OF ts t'] obtain c where "node_at d h c = Some t'" by auto
    from Suc.IH [OF this] y show "y \<le> d" by simp
  qed simp
  with t show ?case by simp
qed

text \<open>
  C1. Let the object \<open>self\<close> and its descendants form a tree \<open>t\<close> (within the recursion
  depth \<open>d\<close>). Then \<^verbatim>\<open>self.to_dict()\<close> returns a record, and \<^verbatim>\<open>Node.from_dict\<close> of that
  record returns a new object (the first one after the old heap) below which the heap
  forms the same tree \<open>t\<close>: the same labels, the same values and the same children in the
  same order at every level, an absent label or value (\<^verbatim>\<open>None\<close>) being absent again and
  not an empty string. The new root has no parent, and no old object has changed.
\<close>

theorem from_dict_to_dict_round_trip:
  assumes "node_at d h self = Some t"
  shows "\<exists>rcd h'. to_dict d h self = Inr rcd \<and>
           from_dict d h rcd = Inr (h', length h) \<and>
           node_at d h' (length h) = Some t \<and>
           label (h' ! length h) = label (h ! self) \<and>
           val (h' ! length h) = val (h ! self) \<and>
           parent (h' ! length h) = None \<and>
           take (length h) h' = h"
proof -
  from from_dict_built [OF node_at_height [OF assms], of h] obtain h' where
    fd: "from_dict d h (to_record t) = Inr (h', length h)" and b: "built h h' t"
    by auto
  have enc: "to_dict d h self = Inr (to_record t)"
    using assms by (rule to_dict_node_at)
  have tree: "node_at d h' (length h) = Some t"
    using builtD(4) [OF b] node_at_height [OF assms] by simp
  obtain d' where d: "d = Suc d'" using assms by (cases d) auto
  from assms have t: "t = NTree (label (h ! self)) (val (h ! self))
                         (case t of NTree l v ts \<Rightarrow> ts)"
    by (auto simp: d split: if_splits option.splits)
  from tree have t': "t = NTree (label (h' ! length h)) (val (h' ! length h))
                         (case t of NTree l v ts \<Rightarrow> ts)"
    by (auto simp: d split: if_splits option.splits)
  from t t' have fields: "label (h' ! length h) = label (h ! self)"
    "val (h' ! length h) = val (h ! self)"
    by (metis ntree.inject)+
  have par: "parent (h' ! length h) = None" using b unfolding built_def by blast
  have old: "take (length h) h' = h"
  proof (rule nth_equalityI)
    show "length (take (length h) h') = length h" using builtD(1) [OF b] by simp
  next
    fix i assume "i < length (take (length h) h')"
    then have "i < length h" by simp
    with builtD(2) [OF b, of i] show "take (length h) h' ! i = h ! i" by simp
  qed
  from enc fd tree fields par old show ?thesis by blast
qed

text \<open>
  The tree of the unit tests (\<^verbatim>\<open>SIMPLE_TREE_DICT\<close>) satisfies the hypothesis of C1.
\<close>

theorem from_dict_to_dict_round_trip_witness:
  "node_at 2 example_heap 0 = Some example_tree \<and>
   (\<exists>rcd h'. to_dict 2 example_heap 0 = Inr rcd \<and>
           from_dict 2 example_heap rcd = Inr (h', length example_heap) \<and>
           node_at 2 h' (length example_heap) = Some example_tree \<and>
           label (h' ! length example_heap) = label (example_heap ! 0) \<and>
           val (h' ! length example_heap) = val (example_heap ! 0) \<and>
           parent (h' ! length example_heap) = None \<and>
           take (length example_heap) h' = example_heap)"
proof -
  have h: "node_at 2 example_heap 0 = Some example_tree"
    by (simp add: example_heap_def example_tree_def numeral_2_eq_2)
  from h from_dict_to_dict_round_trip [OF h] show ?thesis by blast
qed

section \<open>Detaching a node; inserting a parent\<close>

lemma list_index_nth:
  "distinct xs \<Longrightarrow> i < length xs \<Longrightarrow> list_index xs (xs ! i) = Inr i"
proof (induction xs arbitrary: i)
  case Nil
  then show ?case by simp
next
  case (Cons y ys)
  show ?case
  proof (cases i)
    case 0
    then show ?thesis by simp
  next
    case (Suc j)
    with Cons.prems have j: "j < length ys" and d: "distinct ys" and ne: "y \<noteq> ys ! j"
      by auto
    from Cons.IH [OF d j] ne Suc show ?thesis by simp
  qed
qed

lemma insert_after_pop:
  "i < length xs \<Longrightarrow> list_insert (take i xs @ drop (Suc i) xs) (int i) x = xs[i := x]"
  by (simp add: list_insert_def Let_def min_def upd_conv_take_nth_drop)

text \<open>
  C4, as the code has it. \<^verbatim>\<open>Node.delete\<close> is rejected (its assertion fails) for a node
  without a parent. For a node \<open>self\<close> that is among the children of its parent \<open>p\<close>, it
  changes one thing only: the children of \<open>p\<close> lose the first occurrence of \<open>self\<close>, the other
  children staying in their order (when the children are distinct, exactly \<open>self\<close> is
  gone). The parent reference of \<open>self\<close> is not cleared: it still names \<open>p\<close>.
\<close>

theorem delete_detaches:
  "(parent (h ! self) = None \<longrightarrow> delete h self = Inl AssertionError) \<and>
   (parent (h ! self) = Some p \<and> p < length h \<and> self \<in> set (children (h ! p)) \<longrightarrow>
      delete h self = Inr (h[p := (h ! p)\<lparr>children := remove1 self (children (h ! p))\<rparr>]) \<and>
      parent (h[p := (h ! p)\<lparr>children := remove1 self (children (h ! p))\<rparr>] ! self) = Some p \<and>
      (distinct (children (h ! p)) \<longrightarrow>
         remove1 self (children (h ! p)) = filter (\<lambda>c. c \<noteq> self) (children (h ! p))))"
proof (intro conjI impI)
  assume "parent (h ! self) = None"
  then show "delete h self = Inl AssertionError" by (simp add: delete_def)
next
  assume a: "parent (h ! self) = Some p \<and> p < length h \<and> self \<in> set (children (h ! p))"
  then show "delete h self = Inr (h[p := (h ! p)\<lparr>children := remove1 self (children (h ! p))\<rparr>])"
    by (simp add: delete_def list_remove_def)
  from a show "parent (h[p := (h ! p)\<lparr>children := remove1 self (children (h ! p))\<rparr>] ! self) = Some p"
    by (cases "self = p") simp_all
next
  assume "distinct (children (h ! p))"
  then show "remove1 self (children (h ! p)) = filter (\<lambda>c. c \<noteq> self) (children (h ! p))"
    by (simp add: distinct_remove1_removeAll removeAll_filter_not_eq) (metis)
qed

text \<open>Detaching \<^verbatim>\<open>DP\<close> from the tree of the unit tests leaves \<^verbatim>\<open>T<bar/>\<close>.\<close>

theorem delete_detaches_witness:
  "parent (example_heap ! 1) = Some 0 \<and> 0 < length example_heap \<and>
   1 \<in> set (children (example_heap ! 0)) \<and> distinct (children (example_heap ! 0)) \<and>
   delete example_heap 1 =
     Inr (example_heap[0 := (example_heap ! 0)\<lparr>children := remove1 1 (children (example_heap ! 0))\<rparr>]) \<and>
   remove1 1 (children (example_heap ! 0)) = [2]"
  using delete_detaches [of example_heap 1 0]
  by (simp add: example_heap_def)

text \<open>
  C4 as stated fails: after \<^verbatim>\<open>DP.delete()\<close> the parent reference of \<^verbatim>\<open>DP\<close> is still the
  root and not \<^verbatim>\<open>None\<close>.
\<close>

theorem delete_keeps_parent_reference:
  "delete example_heap 1 =
     Inr [\<lparr>label = PyStr ''TP'', val = PyNone, children = [2], parent = None\<rparr>,
          \<lparr>label = PyStr ''DP'', val = PyNone, children = [], parent = Some 0\<rparr>,
          \<lparr>label = PyStr ''T<bar/>'', val = PyNone, children = [], parent = Some 0\<rparr>] \<and>
   parent ([\<lparr>label = PyStr ''TP'', val = PyNone, children = [2], parent = None\<rparr>,
          \<lparr>label = PyStr ''DP'', val = PyNone, children = [], parent = Some 0\<rparr>,
          \<lparr>label = PyStr ''T<bar/>'', val = PyNone, children = [], parent = Some 0\<rparr>] ! 1) \<noteq> None"
  by (simp add: example_heap_def delete_def list_remove_def)

text \<open>
  C8, as the code has it. \<^verbatim>\<open>self.add_parent(nd)\<close> fails (an assertion) when \<open>self\<close> has no
  parent or \<open>nd\<close> has one. Otherwise, for \<open>self\<close> at position \<open>i\<close> of the (distinct) children
  of its parent \<open>p\<close> and \<open>nd\<close> another object than \<open>p\<close>: \<open>nd\<close> takes position \<open>i\<close> among the
  children of \<open>p\<close>, the other children keeping their places; \<open>self\<close> is appended to the
  children that \<open>nd\<close> already has, so it is the only child when \<open>nd\<close> had none; the parent of
  \<open>nd\<close> is \<open>p\<close> and the parent of \<open>self\<close> is \<open>nd\<close>; no other object changes.
\<close>

theorem add_parent_splices:
  "(parent (h ! self) = None \<longrightarrow> add_parent h self nd = Inl AssertionError) \<and>
   (parent (h ! nd) \<noteq> None \<longrightarrow> add_parent h self nd = Inl AssertionError) \<and>
   (parent (h ! self) = Some p \<and> parent (h ! nd) = None \<and>
    p < length h \<and> self < length h \<and> nd < length h \<and> nd \<noteq> p \<and>
    distinct (children (h ! p)) \<and> i < length (children (h ! p)) \<and> children (h ! p) ! i = self \<longrightarrow>
      (\<exists>h'. add_parent h self nd = Inr h' \<and> length h' = length h \<and>
            children (h' ! p) = (children (h ! p))[i := nd] \<and>
            children (h' ! nd) = children (h ! nd) @ [self] \<and>
            parent (h' ! nd) = Some p \<and> parent (h' ! self) = Some nd \<and>
            (\<forall>x. x \<noteq> p \<and> x \<noteq> nd \<and> x \<noteq> self \<longrightarrow> h' ! x = h ! x)))"
proof (intro conjI impI)
  assume "parent (h ! self) = None"
  then show "add_parent h self nd = Inl AssertionError" by (simp add: add_parent_def)
next
  assume "parent (h ! nd) \<noteq> None"
  then show "add_parent h self nd = Inl AssertionError"
    by (simp add: add_parent_def split: option.splits)
next
  assume a: "parent (h ! self) = Some p \<and> parent (h ! nd) = None \<and>
    p < length h \<and> self < length h \<and> nd < length h \<and> nd \<noteq> p \<and>
    distinct (children (h ! p)) \<and> i < length (children (h ! p)) \<and> children (h ! p) ! i = self"
  then have ps: "parent (h ! self) = Some p" and pn: "parent (h ! nd) = None"
    and len: "p < length h" "self < length h" "nd < length h" and np: "nd \<noteq> p"
    and dist: "distinct (children (h ! p))" and i: "i < length (children (h ! p))"
    and at: "children (h ! p) ! i = self"
    by simp_all
  from ps pn have ns: "nd \<noteq> self" by auto
  have idx: "list_index (children (h ! p)) self = Inr i"
    using list_index_nth [OF dist i] at by simp
  define h1 where "h1 = h[nd := (h ! nd)\<lparr>parent := Some p\<rparr>]"
  have h1p: "h1 ! p = h ! p" using np by (simp add: h1_def)
  have pop: "list_pop (children (h1 ! p)) i =
               Inr (self, take i (children (h ! p)) @ drop (Suc i) (children (h ! p)))"
    using i at by (simp add: list_pop_def h1p)
  define h3 where "h3 = h1[p := (h ! p)\<lparr>children := (children (h ! p))[i := nd]\<rparr>]"
  define h4 where "h4 = h3[self := (h3 ! self)\<lparr>parent := None\<rparr>]"
  have len1: "length h1 = length h" by (simp add: h1_def)
  have step: "add_parent h self nd = add_child h4 nd self"
    using ps pn idx pop i len np
    by (simp add: add_parent_def Let_def insert_after_pop h1p h4_def h3_def h1_def)
  have h4self: "parent (h4 ! self) = None"
    using len by (simp add: h4_def h3_def h1_def)
  define h5 where "h5 = h4[nd := (h4 ! nd)\<lparr>children := children (h4 ! nd) @ [self]\<rparr>]"
  define h' where "h' = h5[self := (h5 ! self)\<lparr>parent := Some nd\<rparr>]"
  have res: "add_child h4 nd self = Inr h'"
    using h4self by (simp add: add_child_def Let_def h'_def h5_def)
  have c1: "length h' = length h"
    by (simp add: h'_def h5_def h4_def h3_def h1_def)
  have c2: "children (h' ! p) = (children (h ! p))[i := nd]"
    using len np ns
    by (cases "self = p") (simp_all add: h'_def h5_def h4_def h3_def h1_def)
  have c3: "children (h' ! nd) = children (h ! nd) @ [self]"
    using len np ns
    by (simp add: h'_def h5_def h4_def h3_def h1_def)
  have c4: "parent (h' ! nd) = Some p"
    using len np ns
    by (simp add: h'_def h5_def h4_def h3_def h1_def)
  have c5: "parent (h' ! self) = Some nd"
    using len by (simp add: h'_def h5_def h4_def h3_def h1_def)
  have c6: "\<forall>x. x \<noteq> p \<and> x \<noteq> nd \<and> x \<noteq> self \<longrightarrow> h' ! x = h ! x"
    by (simp add: h'_def h5_def h4_def h3_def h1_def)
  from step res c1 c2 c3 c4 c5 c6
  show "\<exists>h'. add_parent h self nd = Inr h' \<and> length h' = length h \<and>
            children (h' ! p) = (children (h ! p))[i := nd] \<and>
            children (h' ! nd) = children (h ! nd) @ [self] \<and>
            parent (h' ! nd) = Some p \<and> parent (h' ! self) = Some nd \<and>
            (\<forall>x. x \<noteq> p \<and> x \<noteq> nd \<and> x \<noteq> self \<longrightarrow> h' ! x = h ! x)"
    by auto
qed

text \<open>Pasting the tree \<^verbatim>\<open>NP\<close> as the parent of \<^verbatim>\<open>N\<close> satisfies the hypotheses of C8.\<close>

theorem add_parent_splices_witness:
  "parent (paste_heap ! 1) = Some 0 \<and> parent (paste_heap ! 2) = None \<and>
   distinct (children (paste_heap ! 0)) \<and> children (paste_heap ! 0) ! 0 = 1 \<and>
   (\<exists>h'. add_parent paste_heap 1 2 = Inr h' \<and>
         children (h' ! 0) = (children (paste_heap ! 0))[0 := 2] \<and>
         children (h' ! 2) = children (paste_heap ! 2) @ [1] \<and>
         parent (h' ! 2) = Some 0 \<and> parent (h' ! 1) = Some 2)"
  using add_parent_splices [of paste_heap 1 2 0 0]
  by (simp add: paste_heap_def) blast

text \<open>
  C8 as stated fails for a new parent that has children: \<^verbatim>\<open>N\<close> becomes the second child
  of \<^verbatim>\<open>NP\<close>, after \<^verbatim>\<open>A\<close>, not its only child.
\<close>

theorem add_parent_keeps_other_children:
  "parent (paste_heap ! 1) = Some 0 \<and> children (paste_heap ! 0) ! 0 = 1 \<and>
   parent (paste_heap ! 2) = None \<and>
   add_parent paste_heap 1 2 =
     Inr [\<lparr>label = PyStr ''DP'', val = PyNone, children = [2], parent = None\<rparr>,
          \<lparr>label = PyStr ''N'', val = PyStr ''cactus'', children = [], parent = Some 2\<rparr>,
          \<lparr>label = PyStr ''NP'', val = PyNone, children = [3, 1], parent = Some 0\<rparr>,
          \<lparr>label = PyStr ''A'', val = PyStr ''tall'', children = [], parent = Some 2\<rparr>] \<and>
   children ([\<lparr>label = PyStr ''DP'', val = PyNone, children = [2], parent = None\<rparr>,
          \<lparr>label = PyStr ''N'', val = PyStr ''cactus'', children = [], parent = Some 2\<rparr>,
          \<lparr>label = PyStr ''NP'', val = PyNone, children = [3, 1], parent = Some 0\<rparr>,
          \<lparr>label = PyStr ''A'', val = PyStr ''tall'', children = [], parent = Some 2\<rparr>] ! 2)
     \<noteq> [1]"
  by (simp add: paste_heap_def add_parent_def add_child_def list_pop_def list_insert_def Let_def)

section \<open>The markup translator on valid and invalid input\<close>

lemma feed_append:
  "feed p (xs @ ys) = (case feed p xs of Inl e \<Rightarrow> Inl e | Inr p' \<Rightarrow> feed p' ys)"
  by (induction xs arbitrary: p) (auto split: sum.splits)

text \<open>The tables of the code agree with the vocabulary of the specification.\<close>

lemma vocabulary_cases:
  "tag \<in> set vocabulary \<longleftrightarrow>
     tag = ''b'' \<or> tag = ''i'' \<or> tag = ''u'' \<or> tag = ''sup'' \<or> tag = ''sub'' \<or>
     tag = ''null'' \<or> tag = ''bar''"
  by (auto simp: vocabulary_def)

lemma vocabulary_TEX_MAP:
  "tag \<in> set vocabulary \<Longrightarrow> map_of TEX_MAP tag = Some (target_open tag)"
  unfolding vocabulary_cases
  by (elim disjE) (simp_all add: TEX_MAP_def target_open_def backslash_def)

lemma vocabulary_MATHMODE:
  "tag \<in> set vocabulary \<Longrightarrow> tag \<in> set MATHMODE_REQUIRED \<longleftrightarrow> tag \<in> set math_tags"
  by (simp add: MATHMODE_REQUIRED_def math_tags_def)

lemma advanced_refl: "advanced p p []"
  by (simp add: advanced_def)

lemma advanced_trans: "advanced p p' s \<Longrightarrow> advanced p' p'' s' \<Longrightarrow> advanced p p'' (s @ s')"
  by (simp add: advanced_def)

lemma starttag_recognized:
  assumes "tag \<in> set vocabulary"
  shows "tag_stack (handle_starttag p tag []) = tag_stack p @ [tag]"
    and "math_stack (handle_starttag p tag []) =
           (if tag \<in> set math_tags then math_stack p @ [tag] else math_stack p)"
    and "tex (handle_starttag p tag []) =
           tex p @ delimiter (math_stack p \<noteq> []) tag @ target_open tag"
    and "valid (handle_starttag p tag []) = valid p"
  using vocabulary_TEX_MAP [OF assms] vocabulary_MATHMODE [OF assms]
  by (simp_all add: handle_starttag_def Let_def delimiter_def)

lemma endtag_recognized:
  assumes "tag \<in> set vocabulary"
    and "tag_stack p = ts @ [tag]"
    and "math_stack p = (if tag \<in> set math_tags then ms @ [tag] else ms)"
  shows "\<exists>p'. handle_endtag p tag = Inr p' \<and> tag_stack p' = ts \<and> math_stack p' = ms \<and>
           tex p' = tex p @ ''}'' @ delimiter (ms \<noteq> []) tag \<and> valid p'"
  using vocabulary_TEX_MAP [OF assms(1)] vocabulary_MATHMODE [OF assms(1)] assms(2,3)
  by (simp add: handle_endtag_def Let_def delimiter_def)

lemma feed_forest:
  assumes "\<And>m p. m \<in> set ms \<Longrightarrow> recognized m \<Longrightarrow>
             \<exists>p'. feed p (events m) = Inr p' \<and> advanced p p' (render (math_stack p \<noteq> []) m)"
  shows "list_all recognized ms \<Longrightarrow>
         \<exists>p'. feed p (concat (map events ms)) = Inr p' \<and>
              advanced p p' (concat (map (render (math_stack p \<noteq> [])) ms))"
  using assms
proof (induction ms arbitrary: p)
  case Nil
  then show ?case by (simp add: advanced_refl)
next
  case (Cons m ms)
  from Cons.prems(1) have rm: "recognized m" and rms: "list_all recognized ms" by simp_all
  from Cons.prems(2) [of m p] rm obtain p1 where
    f1: "feed p (events m) = Inr p1" and a1: "advanced p p1 (render (math_stack p \<noteq> []) m)"
    by auto
  from Cons.IH [OF rms, of p1] Cons.prems(2) obtain p2 where
    f2: "feed p1 (concat (map events ms)) = Inr p2"
    and a2: "advanced p1 p2 (concat (map (render (math_stack p1 \<noteq> [])) ms))"
    by auto
  from a1 have "math_stack p1 = math_stack p" by (simp add: advanced_def)
  with a2 have a2': "advanced p1 p2 (concat (map (render (math_stack p \<noteq> [])) ms))" by simp
  have "feed p (concat (map events (m # ms))) = Inr p2"
    using f1 f2 by (simp add: feed_append)
  moreover have "advanced p p2 (concat (map (render (math_stack p \<noteq> [])) (m # ms)))"
    using advanced_trans [OF a1 a2'] by simp
  ultimately show ?case by blast
qed

lemma feed_events:
  "recognized m \<Longrightarrow>
   \<exists>p'. feed p (events m) = Inr p' \<and> advanced p p' (render (math_stack p \<noteq> []) m)"
proof (induction m arbitrary: p)
  case (Text s)
  show ?case by (simp add: handle_data_def advanced_def)
next
  case (Elem tag ms)
  from Elem.prems have s: "tag \<in> set vocabulary" and rms: "list_all recognized ms" by auto
  define p1 where "p1 = handle_starttag p tag []"
  note st = starttag_recognized [OF s, of p, folded p1_def]
  have "\<exists>p2. feed p1 (concat (map events ms)) = Inr p2 \<and>
              advanced p1 p2 (concat (map (render (math_stack p1 \<noteq> [])) ms))"
    using rms Elem.IH by (intro feed_forest) auto
  then obtain p2 where f2: "feed p1 (concat (map events ms)) = Inr p2"
    and a2: "advanced p1 p2 (concat (map (render (math_stack p1 \<noteq> [])) ms))"
    by auto
  have m1: "(math_stack p1 \<noteq> []) = (math_stack p \<noteq> [] \<or> tag \<in> set math_tags)"
    using st(2) by simp
  from a2 st have ts2: "tag_stack p2 = tag_stack p @ [tag]"
    and ms2: "math_stack p2 =
                (if tag \<in> set math_tags then math_stack p @ [tag] else math_stack p)"
    and tex2: "tex p2 = tex p @ delimiter (math_stack p \<noteq> []) tag @ target_open tag
                 @ concat (map (render (math_stack p \<noteq> [] \<or> tag \<in> set math_tags)) ms)"
    by (simp_all add: advanced_def m1)
  from endtag_recognized [OF s ts2 ms2] obtain p3 where
    e: "handle_endtag p2 tag = Inr p3" and ts3: "tag_stack p3 = tag_stack p"
    and ms3: "math_stack p3 = math_stack p"
    and tex3: "tex p3 = tex p2 @ ''}'' @ delimiter (math_stack p \<noteq> []) tag"
    and v3: "valid p3"
    by auto
  have "feed p (events (Elem tag ms)) = Inr p3"
    using f2 e by (simp add: feed_append p1_def)
  moreover have "advanced p p3 (render (math_stack p \<noteq> []) (Elem tag ms))"
    using ts3 ms3 tex3 tex2 v3 by (simp add: advanced_def)
  ultimately show ?case by blast
next
  case Comment
  show ?case by (simp add: advanced_def)
next
  case (Empty tag)
  from Empty.prems have s: "tag \<in> set vocabulary" by auto
  define p1 where "p1 = handle_starttag p tag []"
  note st = starttag_recognized [OF s, of p, folded p1_def]
  from endtag_recognized [OF s st(1) st(2)] obtain p3 where
    e: "handle_endtag p1 tag = Inr p3" and ts3: "tag_stack p3 = tag_stack p"
    and ms3: "math_stack p3 = math_stack p"
    and tex3: "tex p3 = tex p1 @ ''}'' @ delimiter (math_stack p \<noteq> []) tag"
    and v3: "valid p3"
    by auto
  have "feed p (events (Empty tag)) = Inr p3"
    using e by (simp add: p1_def)
  moreover have "advanced p p3 (render (math_stack p \<noteq> []) (Empty tag))"
    using ts3 ms3 tex3 st(3) v3 by (simp add: advanced_def)
  ultimately show ?case by blast
qed

lemma parse_complete:
  "well_nested (map fst st) evs \<Longrightarrow> \<exists>ms. parse st cur evs = Some ms"
  by (induction st cur evs rule: parse.induct) (auto split: list.splits)

lemma parse_sound:
  "parse st cur evs = Some ms \<Longrightarrow> list_all recognized cur \<Longrightarrow>
   list_all (\<lambda>x. fst x \<in> set vocabulary \<and> list_all recognized (snd x)) st \<Longrightarrow>
   list_all recognized ms \<and> concat (map events ms) = unwind st (concat (map events cur) @ evs)"
proof (induction st cur evs rule: parse.induct)
  case (1 st cur)
  then show ?case by (auto split: if_splits)
next
  case (2 st cur tag ats evs)
  then show ?case by (auto split: if_splits)
next
  case (3 st cur tag evs)
  then show ?case by (auto split: list.splits if_splits)
next
  case (4 st cur tag ats evs)
  then show ?case by (auto split: if_splits)
next
  case (5 st cur s evs)
  then show ?case by auto
next
  case (6 st cur evs)
  then show ?case by auto
qed

lemma well_nested_forest:
  assumes "well_nested [] evs"
  shows "\<exists>ms. list_all recognized ms \<and> evs = concat (map events ms)"
proof -
  from parse_complete [of "[]" evs "[]"] assms obtain ms where "parse [] [] evs = Some ms"
    by auto
  from parse_sound [OF this] show ?thesis by auto
qed


text \<open>
  The flag \<open>valid\<close> has no influence on what the handlers do to the rest of the state.
\<close>

lemma starttag_same_output:
  "same_output p q \<Longrightarrow> same_output (handle_starttag p tag ats) (handle_starttag q tag ats)"
  by (simp add: same_output_def handle_starttag_def Let_def split: option.splits)

lemma endtag_same_output:
  assumes "same_output p q"
  shows "handle_endtag p tag = Inl e \<Longrightarrow> handle_endtag q tag = Inl e"
    and "handle_endtag p tag = Inr p' \<Longrightarrow>
           \<exists>q'. handle_endtag q tag = Inr q' \<and> same_output p' q'"
  using assms
  by (auto simp: same_output_def handle_endtag_def Let_def split: if_splits)

lemma dispatch_same_output:
  assumes "same_output p q" and "dispatch p ev = Inr p'"
  shows "\<exists>q'. dispatch q ev = Inr q' \<and> same_output p' q'"
proof (cases ev)
  case (StartTag tag ats)
  with assms starttag_same_output [OF assms(1), of tag ats] show ?thesis by auto
next
  case (EndTag tag)
  with assms endtag_same_output(2) [OF assms(1), of tag p'] show ?thesis by auto
next
  case (StartEndTag tag ats)
  with assms endtag_same_output(2) [OF starttag_same_output [OF assms(1), of tag ats], of tag p']
  show ?thesis by auto
next
  case (Data s)
  with assms show ?thesis by (auto simp: same_output_def handle_data_def)
next
  case Ignored
  with assms show ?thesis by auto
qed

lemma feed_same_output:
  "same_output p q \<Longrightarrow> feed p evs = Inr p' \<Longrightarrow>
   \<exists>q'. feed q evs = Inr q' \<and> same_output p' q'"
proof (induction evs arbitrary: p q)
  case Nil
  then show ?case by simp
next
  case (Cons ev evs)
  from Cons.prems(2) obtain p1 where d: "dispatch p ev = Inr p1" and f: "feed p1 evs = Inr p'"
    by (auto split: sum.splits)
  from dispatch_same_output [OF Cons.prems(1) d] obtain q1 where
    dq: "dispatch q ev = Inr q1" and q1: "same_output p1 q1"
    by blast
  from Cons.IH [OF q1 f] dq show ?case by simp
qed

lemma tracksD:
  assumes "tracks st p"
  shows "tag_stack p = rev st"
    and "math_stack p = filter (\<lambda>t. t \<in> set math_tags) (rev st)"
    and "list_all (\<lambda>t. t \<in> set vocabulary) st"
    and "st = [] \<Longrightarrow> valid p"
  using assms unfolding tracks_def by blast+

lemma tracks_starttag:
  assumes "tracks st p" and "tag \<in> set vocabulary"
  shows "tracks (tag # st) (handle_starttag p tag [])"
  using starttag_recognized [OF assms(2), of p] tracksD [OF assms(1)] assms(2)
  by (simp add: tracks_def)

lemma tracks_endtag:
  assumes "tracks (tag # st) p"
  shows "\<exists>p'. handle_endtag p tag = Inr p' \<and> tracks st p'"
proof -
  note t = tracksD [OF assms]
  from t(3) have v: "tag \<in> set vocabulary" and vs: "list_all (\<lambda>t. t \<in> set vocabulary) st"
    by simp_all
  have ts: "tag_stack p = rev st @ [tag]" using t(1) by simp
  have ms: "math_stack p =
              (if tag \<in> set math_tags then filter (\<lambda>t. t \<in> set math_tags) (rev st) @ [tag]
               else filter (\<lambda>t. t \<in> set math_tags) (rev st))"
    using t(2) by simp
  from endtag_recognized [OF v ts ms] vs show ?thesis
    by (auto simp: tracks_def)
qed

lemma feed_tracks:
  "well_nested st (xs @ ys) \<Longrightarrow> tracks st p \<Longrightarrow>
   \<exists>p' st'. feed p xs = Inr p' \<and> tracks st' p' \<and> well_nested st' ys"
proof (induction xs arbitrary: st p)
  case Nil
  then show ?case by auto
next
  case (Cons ev xs)
  show ?case
  proof (cases ev)
    case (StartTag tag ats)
    with Cons.prems(1) have a: "ats = []" and v: "tag \<in> set vocabulary"
      and w: "well_nested (tag # st) (xs @ ys)" by simp_all
    from Cons.IH [OF w tracks_starttag [OF Cons.prems(2) v]] StartTag a
    show ?thesis by simp
  next
    case (EndTag tag)
    with Cons.prems(1) obtain st' where st: "st = tag # st'" and w: "well_nested st' (xs @ ys)"
      by (auto split: list.splits)
    from tracks_endtag [of tag st' p] Cons.prems(2) st obtain p1 where
      e: "handle_endtag p tag = Inr p1" and t1: "tracks st' p1" by auto
    from Cons.IH [OF w t1] EndTag e show ?thesis by simp
  next
    case (StartEndTag tag ats)
    with Cons.prems(1) have a: "ats = []" and v: "tag \<in> set vocabulary"
      and w: "well_nested st (xs @ ys)" by simp_all
    from tracks_endtag [OF tracks_starttag [OF Cons.prems(2) v]] obtain p1 where
      e: "handle_endtag (handle_starttag p tag []) tag = Inr p1" and t1: "tracks st p1"
      by auto
    from Cons.IH [OF w t1] StartEndTag a e show ?thesis by simp
  next
    case (Data s)
    with Cons.prems(1) have w: "well_nested st (xs @ ys)" by simp
    have "tracks st (handle_data p s)"
      using Cons.prems(2) by (simp add: tracks_def handle_data_def)
    from Cons.IH [OF w this] Data show ?thesis by simp
  next
    case Ignored
    with Cons.prems(1) have w: "well_nested st (xs @ ys)" by simp
    from Cons.IH [OF w Cons.prems(2)] Ignored show ?thesis by simp
  qed
qed

text \<open>
  C7. For every valid input (events that are well nested: tags of the vocabulary only, no
  attributes, every end tag closing the innermost open tag, none left open), whichever
  part of it \<^verbatim>\<open>feed\<close> handles and whichever part \<^verbatim>\<open>close\<close>, the input is the text of a
  forest of markup, the translator accepts it, and its output is the rendering of that
  forest in which a dollar sign is written before the opening text of a tag that requires
  math mode (sup, sub, null, bar), and one after its closing brace, exactly when the tag
  is not itself inside a tag that requires math mode: nested math tags share the one pair
  of delimiters of the outermost of them.
\<close>

theorem math_mode_delimiters:
  assumes "well_nested [] (evs @ held)"
  shows "\<exists>ms p. evs @ held = concat (map events ms) \<and> list_all recognized ms \<and>
           translate evs held = Inr p \<and> valid p \<and>
           tex p = concat (map (render False) ms)"
proof -
  from well_nested_forest [OF assms] obtain ms where
    ms: "list_all recognized ms" and whole: "evs @ held = concat (map events ms)"
    by auto
  have "\<exists>p'. feed reset (concat (map events ms)) = Inr p' \<and>
              advanced reset p' (concat (map (render (math_stack reset \<noteq> [])) ms))"
    using ms feed_events by (intro feed_forest) auto
  then obtain p0 where f0: "feed reset (evs @ held) = Inr p0"
    and a0: "advanced reset p0 (concat (map (render (math_stack reset \<noteq> [])) ms))"
    using whole by auto
  from a0 have tex0: "tex p0 = concat (map (render False) ms)"
    by (simp add: advanced_def reset_def)
  from f0 obtain p1 where f1: "feed reset evs = Inr p1" and f2: "feed p1 held = Inr p0"
    by (auto simp: feed_append split: sum.splits)
  define q where "q = (if tag_stack p1 \<noteq> [] then p1\<lparr>valid := False\<rparr> else p1)"
  have q: "same_output p1 q" by (simp add: q_def same_output_def)
  from feed_same_output [OF q f2] obtain q' where
    fq: "feed q held = Inr q'" and q': "same_output p0 q'"
    by auto
  from q' tex0 have tex: "tex q' = concat (map (render False) ms)"
    by (simp add: same_output_def)
  have "tracks [] reset" by (simp add: tracks_def reset_def)
  from feed_tracks [OF assms this] f1 obtain st1 where
    t1: "tracks st1 p1" and w1: "well_nested st1 held"
    by auto
  have tq: "tracks st1 q"
    using t1 by (auto simp: tracks_def q_def)
  from feed_tracks [of st1 held "[]" q] w1 tq fq obtain st2 where
    "tracks st2 q'" and "well_nested st2 []"
    by auto
  then have v: "valid q'" by (simp add: tracks_def)
  have "translate evs held = Inr q'"
    using f1 fq by (simp add: translate_def close_def q_def)
  with whole ms v tex show ?thesis by blast
qed

text \<open>
  A valid input with a subscript and a prime inside a superscript, followed by bold text
  and a null symbol; \<^verbatim>\<open>feed\<close> may have handled all of it, or only its first three events.
\<close>

theorem math_mode_delimiters_witness:
  "well_nested [] (nested_math @ []) \<and>
   (\<exists>ms p. nested_math @ [] = concat (map events ms) \<and> list_all recognized ms \<and>
           translate nested_math [] = Inr p \<and> valid p \<and>
           tex p = concat (map (render False) ms))"
proof -
  have h: "well_nested [] (nested_math @ [])"
    by (simp add: nested_math_def vocabulary_def)
  from h math_mode_delimiters [OF h] show ?thesis by blast
qed

text \<open>
  Its translation has one pair of dollar signs around the superscript and one around the
  null symbol, also when \<^verbatim>\<open>close\<close> handles the end of it.
\<close>

lemma nested_math_tex:
  "translate nested_math [] =
     Inr \<lparr>valid = True, tag_stack = [], math_stack = [],
          tex = ''x$^{a_{b}^{'' @ CHR 0x5C # ''prime}}$'' @ CHR 0x5C # ''textbf{c}${''
                  @ CHR 0x5C # ''O}$'',
          data = ''xabBarcNull''\<rparr>"
  "translate (take 3 nested_math) (drop 3 nested_math) = translate nested_math []"
  by code_simp+

lemma nested_math_render:
  "concat (map (render False)
     [Text ''x'', Elem ''sup'' [Text ''a'', Elem ''sub'' [Text ''b''], Empty ''bar''],
      Elem ''b'' [Text ''c''], Empty ''null''])
   = ''x$^{a_{b}^{'' @ CHR 0x5C # ''prime}}$'' @ CHR 0x5C # ''textbf{c}${'' @ CHR 0x5C # ''O}$''"
  by code_simp

text \<open>
  C2 fails on the code: for the text \<^verbatim>\<open></sup>\<close>, an end tag that requires math mode when
  none is open, \<^verbatim>\<open>handle_endtag\<close> pops the empty math stack outside its \<^verbatim>\<open>try\<close>, and the
  \<^verbatim>\<open>IndexError\<close> reaches the caller.
\<close>

theorem unopened_math_end_tag_raises:
  "translate [EndTag ''sup''] [] = Inl IndexError"
  by (simp add: translate_def reset_def handle_endtag_def TEX_MAP_def MATHMODE_REQUIRED_def
      Let_def)

text \<open>
  C5 fails on the code: in \<^verbatim>\<open><b>x</i>\<close> the end tag does not match the open tag, and the
  input is accepted all the same (\<^verbatim>\<open>valid\<close> is true after \<^verbatim>\<open>close\<close>), since
  \<^verbatim>\<open>handle_endtag\<close> tests the popped tag for being a key of \<^verbatim>\<open>TEX_MAP\<close> and not for
  being the tag that ends.
\<close>

theorem mismatched_end_tag_accepted:
  "\<not> well_nested [] [StartTag ''b'' [], Data ''x'', EndTag ''i''] \<and>
   translate [StartTag ''b'' [], Data ''x'', EndTag ''i''] [] =
     Inr \<lparr>valid = True, tag_stack = [], math_stack = [],
          tex = backslash # ''textbf{x}'', data = ''x''\<rparr>"
  by (simp add: translate_def reset_def close_def handle_data_def
      handle_starttag_def handle_endtag_def TEX_MAP_def MATHMODE_REQUIRED_def SPECIALS_def
      Let_def vocabulary_def)

section \<open>The document: moving, copying, saving and loading\<close>

text \<open>
  What \<^verbatim>\<open>_shift\<close> does to a selection \<open>s\<close> at position \<open>i\<close> of the (distinct) children of its
  parent: it takes \<open>s\<close> out and inserts it at \<open>i + direction\<close> into the rest.
\<close>

lemma shift_children:
  assumes "selection t = Some s" and "root t \<noteq> Some s"
    and "parent (heap w ! s) = Some p"
    and "distinct (children (heap w ! p))" and "i < length (children (heap w ! p))"
    and "children (heap w ! p) ! i = s"
  shows "shift t w direction =
           Inr (t\<lparr>dirty := True\<rparr>,
                w\<lparr>heap := (heap w)[p := (heap w ! p)\<lparr>children :=
                       list_insert (take i (children (heap w ! p)) @ drop (Suc i) (children (heap w ! p)))
                         (int i + direction) s\<rparr>]\<rparr>)"
proof -
  have idx: "list_index (children (heap w ! p)) s = Inr i"
    using list_index_nth [OF assms(4,5)] assms(6) by simp
  show ?thesis
    using assms(1,2,3,5,6) idx by (simp add: shift_def list_pop_def)
qed

lemma insert_before:
  assumes "0 < i" "i < length xs"
  shows "list_insert (take i xs @ drop (Suc i) xs) (int i - 1) (xs ! i)
           = xs[i - 1 := xs ! i, i := xs ! (i - 1)]"
proof -
  obtain j where i: "i = Suc j" using assms(1) by (cases i) auto
  have j: "j < length xs" using assms(2) i by simp
  have tk: "take (Suc j) xs = take j xs @ [xs ! j]"
    using j by (simp add: take_Suc_conv_app_nth)
  have "list_insert (take i xs @ drop (Suc i) xs) (int i - 1) (xs ! i)
          = take j xs @ [xs ! Suc j] @ [xs ! j] @ drop (Suc (Suc j)) xs"
    using assms(2) i j by (simp add: list_insert_def Let_def min_def tk)
  also have "\<dots> = xs[j := xs ! Suc j, Suc j := xs ! j]"
  proof -
    have "xs = take j xs @ xs ! j # xs ! Suc j # drop (Suc (Suc j)) xs"
      using assms(2) i j by (metis Cons_nth_drop_Suc append_take_drop_id)
    then obtain a b where xs: "xs = a @ xs ! j # xs ! Suc j # b" and a: "length a = j"
      and a': "a = take j xs" and b': "b = drop (Suc (Suc j)) xs"
      using j by (metis length_take min.absorb2 less_imp_le_nat)
    have "(a @ xs ! j # xs ! Suc j # b)[j := xs ! Suc j, Suc j := xs ! j]
            = a @ xs ! Suc j # xs ! j # b"
      using a by (simp add: list_update_append)
    with xs a' b' show ?thesis by simp
  qed
  finally show ?thesis by (simp add: i)
qed

lemma insert_after:
  assumes "Suc i < length xs"
  shows "list_insert (take i xs @ drop (Suc i) xs) (int i + 1) (xs ! i)
           = xs[i := xs ! Suc i, Suc i := xs ! i]"
proof -
  have "xs = take i xs @ xs ! i # xs ! Suc i # drop (Suc (Suc i)) xs"
    using assms by (metis Cons_nth_drop_Suc Suc_lessD append_take_drop_id)
  then obtain a b where xs: "xs = a @ xs ! i # xs ! Suc i # b" and a: "length a = i"
    and a': "a = take i xs" and b': "b = drop (Suc (Suc i)) xs"
    using assms by (metis length_take min.absorb2 less_imp_le_nat Suc_lessD)
  have dr: "drop (Suc i) xs = xs ! Suc i # b"
    using assms b' by (simp add: Cons_nth_drop_Suc)
  have "list_insert (take i xs @ drop (Suc i) xs) (int i + 1) (xs ! i)
          = a @ xs ! Suc i # xs ! i # b"
  proof -
    have n: "nat (int i + 1) = Suc i" by simp
    have l: "length (take i xs @ drop (Suc i) xs) = length xs - 1" using assms by simp
    have "int i + 1 \<le> int (length xs - 1)" using assms by simp
    then show ?thesis
      using assms a a' dr l by (simp add: list_insert_def Let_def min_def n del: length_append)
  qed
  moreover have "(a @ xs ! i # xs ! Suc i # b)[i := xs ! Suc i, Suc i := xs ! i]
            = a @ xs ! Suc i # xs ! i # b"
    using a by (simp add: list_update_append)
  ultimately show ?thesis using xs by simp
qed

lemma insert_at_end:
  assumes "Suc i = length xs"
  shows "list_insert (take i xs @ drop (Suc i) xs) (int i + 1) (xs ! i) = xs"
proof -
  have "take i xs @ [xs ! i] = xs"
    using assms by (metis lessI take_Suc_conv_app_nth take_all order_refl)
  then show ?thesis
    using assms by (simp add: list_insert_def Let_def min_def)
qed

lemma insert_wraps:
  assumes "2 < length xs"
  shows "list_insert (take 0 xs @ drop (Suc 0) xs) (int 0 - 1) (xs ! 0)
           = take (length xs - 2) (tl xs) @ [hd xs] @ drop (length xs - 2) (tl xs)"
proof -
  obtain x ys where xs: "xs = x # ys" using assms by (cases xs) auto
  have "nat (int (length ys) - 1) = length ys - 1" by simp
  with assms xs show ?thesis
    by (simp add: list_insert_def Let_def max_def)
qed

text \<open>
  Hence the four cases of moving: \<^verbatim>\<open>move_up\<close> away from the first position and
  \<^verbatim>\<open>move_down\<close> away from the last one exchange the selection with its neighbour;
  \<^verbatim>\<open>move_down\<close> at the last position leaves the order as it is; \<^verbatim>\<open>move_up\<close> at the
  first position, when there are more than two children, puts the selection before the
  last of the others.
\<close>

lemma move_cases:
  assumes "selection t = Some s" and "root t \<noteq> Some s"
    and "parent (heap w ! s) = Some p"
    and "distinct (children (heap w ! p))" and "i < length (children (heap w ! p))"
    and "children (heap w ! p) ! i = s"
  shows "0 < i \<Longrightarrow> move_up t w =
           Inr (t\<lparr>dirty := True\<rparr>,
                w\<lparr>heap := (heap w)[p := (heap w ! p)\<lparr>children :=
                       (children (heap w ! p))[i - 1 := s, i := children (heap w ! p) ! (i - 1)]\<rparr>]\<rparr>)"
    and "Suc i < length (children (heap w ! p)) \<Longrightarrow> move_down t w =
           Inr (t\<lparr>dirty := True\<rparr>,
                w\<lparr>heap := (heap w)[p := (heap w ! p)\<lparr>children :=
                       (children (heap w ! p))[i := children (heap w ! p) ! Suc i, Suc i := s]\<rparr>]\<rparr>)"
    and "Suc i = length (children (heap w ! p)) \<Longrightarrow> move_down t w =
           Inr (t\<lparr>dirty := True\<rparr>,
                w\<lparr>heap := (heap w)[p := (heap w ! p)\<lparr>children := children (heap w ! p)\<rparr>]\<rparr>)"
    and "i = 0 \<Longrightarrow> 2 < length (children (heap w ! p)) \<Longrightarrow> move_up t w =
           Inr (t\<lparr>dirty := True\<rparr>,
                w\<lparr>heap := (heap w)[p := (heap w ! p)\<lparr>children :=
                       take (length (children (heap w ! p)) - 2) (tl (children (heap w ! p)))
                         @ [s] @ drop (length (children (heap w ! p)) - 2)
                                    (tl (children (heap w ! p)))\<rparr>]\<rparr>)"
proof -
  note sh = shift_children [OF assms]
  show "0 < i \<Longrightarrow> move_up t w =
           Inr (t\<lparr>dirty := True\<rparr>,
                w\<lparr>heap := (heap w)[p := (heap w ! p)\<lparr>children :=
                       (children (heap w ! p))[i - 1 := s, i := children (heap w ! p) ! (i - 1)]\<rparr>]\<rparr>)"
    using insert_before [of i "children (heap w ! p)"] assms(5,6) sh [of "- 1"]
    by (simp add: move_up_def)
  show "Suc i < length (children (heap w ! p)) \<Longrightarrow> move_down t w =
           Inr (t\<lparr>dirty := True\<rparr>,
                w\<lparr>heap := (heap w)[p := (heap w ! p)\<lparr>children :=
                       (children (heap w ! p))[i := children (heap w ! p) ! Suc i, Suc i := s]\<rparr>]\<rparr>)"
    using insert_after [of i "children (heap w ! p)"] assms(6) sh [of 1]
    by (simp add: move_down_def)
  show "Suc i = length (children (heap w ! p)) \<Longrightarrow> move_down t w =
           Inr (t\<lparr>dirty := True\<rparr>,
                w\<lparr>heap := (heap w)[p := (heap w ! p)\<lparr>children := children (heap w ! p)\<rparr>]\<rparr>)"
    using insert_at_end [of i "children (heap w ! p)"] assms(6) sh [of 1]
    by (simp add: move_down_def)
  show "i = 0 \<Longrightarrow> 2 < length (children (heap w ! p)) \<Longrightarrow> move_up t w =
           Inr (t\<lparr>dirty := True\<rparr>,
                w\<lparr>heap := (heap w)[p := (heap w ! p)\<lparr>children :=
                       take (length (children (heap w ! p)) - 2) (tl (children (heap w ! p)))
                         @ [s] @ drop (length (children (heap w ! p)) - 2)
                                    (tl (children (heap w ! p)))\<rparr>]\<rparr>)"
    using insert_wraps [of "children (heap w ! p)"] assms(5,6) sh [of "- 1"]
    by (simp add: move_up_def hd_conv_nth)
qed

text \<open>
  C3 fails on the code: with the first of three siblings selected, \<^verbatim>\<open>move_up\<close> is not a
  no-op. The selection is popped and then inserted at index \<open>-1\<close> of the remaining list,
  which Python counts from the end: the children \<open>[A, B, C]\<close> become \<open>[B, A, C]\<close>.
\<close>

theorem move_up_first_sibling_moves_down:
  "move_up (siblings_tree 1) siblings_world =
     Inr (siblings_tree 1\<lparr>dirty := True\<rparr>,
          siblings_world\<lparr>heap := siblings_heap[0 := (siblings_heap ! 0)\<lparr>children := [2, 1, 3]\<rparr>]\<rparr>)"
  by code_simp

text \<open>
  At the other end the order stays as it is (an index beyond the end means the end), and
  away from the ends the selection changes places with its neighbour.
\<close>

lemma move_down_last_sibling_stays:
  "move_down (siblings_tree 3) siblings_world =
     Inr (siblings_tree 3\<lparr>dirty := True\<rparr>,
          siblings_world\<lparr>heap := siblings_heap[0 := (siblings_heap ! 0)\<lparr>children := [1, 2, 3]\<rparr>]\<rparr>)"
  by code_simp

lemma move_up_second_sibling_swaps:
  "move_up (siblings_tree 2) siblings_world =
     Inr (siblings_tree 2\<lparr>dirty := True\<rparr>,
          siblings_world\<lparr>heap := siblings_heap[0 := (siblings_heap ! 0)\<lparr>children := [2, 1, 3]\<rparr>]\<rparr>)"
  by code_simp

text \<open>
  C10. Whenever \<^verbatim>\<open>copy\<close> returns, the document (root, selection, dirty flag, manifest,
  last path), the heap of nodes and the files are as before, and the pasteboard holds
  what \<^verbatim>\<open>to_dict\<close> returned for the selection. Without a selection it raises
  \<^verbatim>\<open>SelectionError\<close>. When the selection and its descendants form a tree (within the
  recursion depth), \<^verbatim>\<open>copy\<close> does return, and the pasteboard holds the record of that
  tree.
\<close>

theorem copy_changes_pasteboard_only:
  "(\<forall>t' w'. copy d t w = Inr (t', w') \<longrightarrow>
       t' = t \<and> heap w' = heap w \<and> files w' = files w \<and>
       (\<exists>s. selection t = Some s \<and> to_dict d (heap w) s = Inr (pasteboard w'))) \<and>
   (selection t = None \<longrightarrow> copy d t w = Inl SelectionError) \<and>
   (\<forall>s st. selection t = Some s \<and> node_at d (heap w) s = Some st \<longrightarrow>
       copy d t w = Inr (t, w\<lparr>pasteboard := to_record st\<rparr>))"
proof (intro conjI allI impI)
  fix t' w' assume c: "copy d t w = Inr (t', w')"
  then show "t' = t" "heap w' = heap w" "files w' = files w"
    by (auto simp: copy_def split: option.splits sum.splits)
  from c show "\<exists>s. selection t = Some s \<and> to_dict d (heap w) s = Inr (pasteboard w')"
    by (auto simp: copy_def split: option.splits sum.splits)
next
  assume "selection t = None"
  then show "copy d t w = Inl SelectionError" by (simp add: copy_def)
next
  fix s st assume "selection t = Some s \<and> node_at d (heap w) s = Some st"
  then show "copy d t w = Inr (t, w\<lparr>pasteboard := to_record st\<rparr>)"
    by (simp add: copy_def to_dict_node_at)
qed

text \<open>Copying the root of the tree of the unit tests.\<close>

theorem copy_changes_pasteboard_only_witness:
  "selection example_doc = Some 0 \<and>
   node_at 2 (heap example_world) 0 = Some example_tree \<and>
   copy 2 example_doc example_world =
     Inr (example_doc, example_world\<lparr>pasteboard := to_record example_tree\<rparr>)"
proof -
  have h: "selection example_doc = Some 0 \<and>
           node_at 2 (heap example_world) 0 = Some example_tree"
    by (simp add: example_doc_def example_world_def example_heap_def example_tree_def
        numeral_2_eq_2)
  from copy_changes_pasteboard_only [of 2 example_doc example_world]
  have "\<forall>s st. selection example_doc = Some s \<and> node_at 2 (heap example_world) s = Some st \<longrightarrow>
          copy 2 example_doc example_world = Inr (example_doc, example_world\<lparr>pasteboard := to_record st\<rparr>)"
    by (rule conjunct2 [THEN conjunct2])
  with h show ?thesis by blast
qed

lemma map_of_assoc_set: "map_of (assoc_set kvs k v) = (map_of kvs)(k \<mapsto> v)"
  by (induction kvs) (auto simp: fun_eq_iff)

lemma map_of_dict_update:
  "distinct (map fst m) \<Longrightarrow>
   map_of (dict_update d m) k = (case map_of m k of None \<Rightarrow> map_of d k | Some v \<Rightarrow> Some v)"
proof (induction m arbitrary: d)
  case Nil
  then show ?case by (simp add: dict_update_def)
next
  case (Cons kv m)
  obtain k0 v0 where kv: "kv = (k0, v0)" by (cases kv)
  from Cons.prems kv have d: "distinct (map fst m)" and fresh: "k0 \<notin> fst ` set m" by auto
  from fresh have none: "map_of m k0 = None" by (simp add: map_of_eq_None_iff)
  have step: "dict_update d ((k0, v0) # m) = dict_update (assoc_set d k0 v0) m"
    by (simp add: dict_update_def)
  show ?case
    using Cons.IH [OF d, of "assoc_set d k0 v0"] none
    by (auto simp: step kv map_of_assoc_set split: option.splits)
qed



lemma my_major: "py_int lim (major_part version) = Inr 1"
proof -
  have m: "major_part version = ''1''" by code_simp
  have s: "strip ''1'' = ''1''" by code_simp
  have d: "digits_ok ''1''" by code_simp
  have n: "decimal ''1'' = 1" by code_simp
  have f: "filter is_digit ''1'' = ''1''" by code_simp
  have i: "is_digit CHR ''1''" by code_simp
  show ?thesis
    by (simp add: m py_int_def s unsigned_def i n too_many_digits_def)
qed

lemma loaded_version:
  assumes "distinct (map fst m)" "map_of m ''version'' = Some v"
  shows "dict_get (dict_update DEFAULT_MANIFEST m) ''version'' = v"
  using assms by (simp add: dict_get_def dict_get_default_def map_of_dict_update)



text \<open>A container of version 0.9.0 loads.\<close>

lemma older_container_loads:
  "Tree_init 1 4300 (Some ''old.treemendous'') old_world = Inr (loaded_tree, loaded_world)"
  by code_simp

text \<open>A unit separator before the digits is not white space for \<^verbatim>\<open>int\<close>; a space is.\<close>

lemma white_space_of_int:
  "py_int 4300 (CHR 0x1F # ''2'') = Inl ValueError"
  "py_int 4300 '' 2 '' = Inr 2"
  by code_simp+

text \<open>No method of the document changes the version in its manifest.\<close>

lemma version_assoc_set_notes:
  "dict_get (assoc_set m ''notes'' x) ''version'' = dict_get m ''version''"
  by (simp add: dict_get_def dict_get_default_def map_of_assoc_set)

lemma add_new_manifest:
  "add_new t w loc new = Inr (t', w') \<Longrightarrow> manifest t' = manifest t"
  by (auto simp: add_new_def split: option.splits Location.splits sum.splits if_splits)

lemma shift_manifest:
  "shift t w direction = Inr (t', w') \<Longrightarrow> manifest t' = manifest t"
  by (auto simp: shift_def split: option.splits sum.splits if_splits prod.splits)

lemma edit_manifest:
  "edit t w lbl vl = Inr (t', w') \<Longrightarrow> manifest t' = manifest t"
  by (auto simp: edit_def edit_label_def edit_value_def split: option.splits sum.splits)

lemma save_manifest:
  assumes "save d t path w = Inr (Container_saved t' w')"
  shows "manifest t' = manifest t"
    and "\<exists>rcd. map_of (files w') (last_path t')
                = Some (Zip (Payload (manifest t)) (Payload rcd))"
  using assms
  by (auto simp: save_def Let_def map_of_assoc_set split: if_splits option.splits sum.splits)

lemma apply_op_version:
  assumes "apply_op d x t w = Inr (t', w')"
  shows "dict_get (manifest t') ''version'' = dict_get (manifest t) ''version''"
proof (cases x)
  case (Add loc lbl vl)
  with assms show ?thesis by (auto simp: add_def dest: add_new_manifest)
next
  case (Edit lbl vl)
  with assms show ?thesis by (auto dest: edit_manifest)
next
  case Delete
  with assms show ?thesis
    by (auto simp: Tree_delete_def split: option.splits sum.splits if_splits)
next
  case Copy
  with assms show ?thesis
    by (auto simp: copy_def split: option.splits sum.splits)
next
  case (Paste loc)
  with assms show ?thesis
    by (auto simp: paste_def split: sum.splits if_splits dest: add_new_manifest)
next
  case MoveUp
  with assms show ?thesis by (auto simp: move_up_def dest: shift_manifest)
next
  case MoveDown
  with assms show ?thesis by (auto simp: move_down_def dest: shift_manifest)
next
  case (SetNotes new)
  with assms show ?thesis by (auto simp: set_notes_def version_assoc_set_notes)
next
  case (Select s)
  with assms show ?thesis by auto
next
  case (Save path exported)
  with assms show ?thesis
    by (auto split: sum.splits save_result.splits dest: save_manifest(1))
qed

lemma run_version:
  "run d ops t w = Inr (t', w') \<Longrightarrow>
   dict_get (manifest t') ''version'' = dict_get (manifest t) ''version''"
proof (induction ops arbitrary: t w)
  case Nil
  then show ?case by simp
next
  case (Cons x xs)
  from Cons.prems obtain t1 w1 where a: "apply_op d x t w = Inr (t1, w1)"
    and r: "run d xs t1 w1 = Inr (t', w')"
    by (auto split: sum.splits)
  from Cons.IH [OF r] apply_op_version [OF a] show ?case by simp
qed

lemma created_version:
  assumes "Tree_init d lim path w = Inr (t, w')" and "path = None \<or> path = Some []"
  shows "dict_get (manifest t) ''version'' = PyStr version"
  using assms
  by (auto simp: Tree_init_def Let_def DEFAULT_MANIFEST_def dict_get_def dict_get_default_def)

lemma opened_version:
  assumes "Tree_init d lim (Some p) w = Inr (t, w')" and "p \<noteq> []"
    and "map_of (files w) p = Some (Zip (Payload m) tree_json)"
    and "distinct (map fst m)" and "map_of m ''version'' = Some v"
  shows "dict_get (manifest t) ''version'' = v"
proof -
  from assms(1,2,3) have "manifest t = dict_update DEFAULT_MANIFEST m"
    by (auto simp: Tree_init_def Let_def split: sum.splits pyval.splits entry.splits if_splits)
  with assms(4,5) show ?thesis by (simp add: loaded_version)
qed

text \<open>
  C6, as the code has it. A successful save to the container format writes the manifest of
  the document as it is in memory, and does not change it. No method of the document
  changes the version in the manifest. So the version that is written is the version of
  the running code for a document that was created empty, whatever was done to it since
  (nodes selected, added, edited, moved, deleted, copied and pasted, notes entered,
  earlier saves and exports), and it is the version of the container for a document that
  was loaded from a container whose manifest has one, whatever was done to it since.
\<close>

theorem save_writes_manifest:
  "(save d t path w = Inr (Container_saved t' w') \<longrightarrow>
      manifest t' = manifest t \<and>
      (\<exists>rcd. map_of (files w') (last_path t')
                = Some (Zip (Payload (manifest t)) (Payload rcd)))) \<and>
   (Tree_init d lim created w0 = Inr (t0, w0') \<and> (created = None \<or> created = Some []) \<and>
    run d ops t0 w0' = Inr (t, w) \<and> save d t path w = Inr (Container_saved t' w') \<longrightarrow>
      (\<exists>m rcd. map_of (files w') (last_path t') = Some (Zip (Payload m) (Payload rcd)) \<and>
               dict_get m ''version'' = PyStr version)) \<and>
   (Tree_init d lim (Some p) w0 = Inr (t0, w0') \<and> p \<noteq> [] \<and>
    map_of (files w0) p = Some (Zip (Payload mf) tree_json) \<and>
    distinct (map fst mf) \<and> map_of mf ''version'' = Some v \<and>
    run d ops t0 w0' = Inr (t, w) \<and> save d t path w = Inr (Container_saved t' w') \<longrightarrow>
      (\<exists>m rcd. map_of (files w') (last_path t') = Some (Zip (Payload m) (Payload rcd)) \<and>
               dict_get m ''version'' = v))"
proof (intro conjI impI)
  assume s: "save d t path w = Inr (Container_saved t' w')"
  from save_manifest [OF s] show "manifest t' = manifest t"
    and "\<exists>rcd. map_of (files w') (last_path t')
                = Some (Zip (Payload (manifest t)) (Payload rcd))"
    by simp_all
next
  assume a: "Tree_init d lim created w0 = Inr (t0, w0') \<and>
    (created = None \<or> created = Some []) \<and>
    run d ops t0 w0' = Inr (t, w) \<and> save d t path w = Inr (Container_saved t' w')"
  then have "dict_get (manifest t0) ''version'' = PyStr version"
    using created_version by blast
  moreover from a have "dict_get (manifest t) ''version'' = dict_get (manifest t0) ''version''"
    using run_version by blast
  moreover from a save_manifest(2) obtain rcd where
    "map_of (files w') (last_path t') = Some (Zip (Payload (manifest t)) (Payload rcd))"
    by blast
  ultimately show "\<exists>m rcd. map_of (files w') (last_path t')
                      = Some (Zip (Payload m) (Payload rcd)) \<and>
               dict_get m ''version'' = PyStr version"
    by auto
next
  assume a: "Tree_init d lim (Some p) w0 = Inr (t0, w0') \<and> p \<noteq> [] \<and>
    map_of (files w0) p = Some (Zip (Payload mf) tree_json) \<and>
    distinct (map fst mf) \<and> map_of mf ''version'' = Some v \<and>
    run d ops t0 w0' = Inr (t, w) \<and> save d t path w = Inr (Container_saved t' w')"
  then have "dict_get (manifest t0) ''version'' = v"
    using opened_version by blast
  moreover from a have "dict_get (manifest t) ''version'' = dict_get (manifest t0) ''version''"
    using run_version by blast
  moreover from a save_manifest(2) obtain rcd where
    "map_of (files w') (last_path t') = Some (Zip (Payload (manifest t)) (Payload rcd))"
    by blast
  ultimately show "\<exists>m rcd. map_of (files w') (last_path t')
                      = Some (Zip (Payload m) (Payload rcd)) \<and>
               dict_get m ''version'' = v"
    by auto
qed

text \<open>
  C6 as stated fails: a document loaded from a container of version 0.9.0 and saved again
  is written with version 0.9.0 in its manifest, not with the version of the running code.
\<close>

theorem save_keeps_loaded_version:
  "Tree_init 1 4300 (Some ''old.treemendous'') old_world = Inr (loaded_tree, loaded_world) \<and>
   save 1 loaded_tree None loaded_world = Inr (Container_saved loaded_tree saved_world) \<and>
   map_of (files saved_world) ''old.treemendous''
     = Some (Zip (Payload [(''version'', PyStr ''0.9.0'')])
                 (Payload (PyDict [(''label'', PyStr ''TP''), (''value'', PyNone),
                                   (''children'', PyList [])]))) \<and>
   dict_get [(''version'', PyStr ''0.9.0'')] ''version'' \<noteq> PyStr version"
  by code_simp

text \<open>
  A document created empty, given a node and notes and then saved, and the document of
  version 0.9.0, given notes and then saved, satisfy the hypotheses of C6 as amended.
\<close>

theorem save_writes_manifest_witness:
  "Tree_init 5 4300 None empty_world = Inr (empty_doc, empty_world) \<and>
   run 5 [Add CHILD (Some ''TP'') None, SetNotes ''a phrase''] empty_doc empty_world
     = Inr (edited_doc, edited_world) \<and>
   save 5 edited_doc (Some ''new.treemendous'') edited_world
     = Inr (Container_saved new_saved_doc new_saved_world) \<and>
   (\<exists>m rcd. map_of (files new_saved_world) (last_path new_saved_doc)
              = Some (Zip (Payload m) (Payload rcd)) \<and>
            dict_get m ''version'' = PyStr version) \<and>
   Tree_init 5 4300 (Some ''old.treemendous'') old_world = Inr (loaded_tree, loaded_world) \<and>
   map_of (files old_world) ''old.treemendous''
     = Some (Zip (Payload [(''version'', PyStr ''0.9.0'')])
                 (Payload (PyDict [(''label'', PyStr ''TP'')]))) \<and>
   run 5 [SetNotes ''seen''] loaded_tree loaded_world = Inr (noted_tree, loaded_world) \<and>
   save 5 noted_tree None loaded_world
     = Inr (Container_saved (noted_tree\<lparr>dirty := False\<rparr>) noted_saved_world) \<and>
   (\<exists>m rcd. map_of (files noted_saved_world) (last_path (noted_tree\<lparr>dirty := False\<rparr>))
              = Some (Zip (Payload m) (Payload rcd)) \<and>
            dict_get m ''version'' = PyStr ''0.9.0'')"
proof -
  have c: "Tree_init 5 4300 None empty_world = Inr (empty_doc, empty_world)"
    by code_simp
  have r: "run 5 [Add CHILD (Some ''TP'') None, SetNotes ''a phrase''] empty_doc empty_world
             = Inr (edited_doc, edited_world)"
    by code_simp
  have s: "save 5 edited_doc (Some ''new.treemendous'') edited_world
             = Inr (Container_saved new_saved_doc new_saved_world)"
    by code_simp
  have l: "Tree_init 5 4300 (Some ''old.treemendous'') old_world
             = Inr (loaded_tree, loaded_world)"
    by code_simp
  have f: "map_of (files old_world) ''old.treemendous''
     = Some (Zip (Payload [(''version'', PyStr ''0.9.0'')])
                 (Payload (PyDict [(''label'', PyStr ''TP'')])))"
    by (simp add: old_world_def)
  have r': "run 5 [SetNotes ''seen''] loaded_tree loaded_world = Inr (noted_tree, loaded_world)"
    by code_simp
  have s': "save 5 noted_tree None loaded_world
              = Inr (Container_saved (noted_tree\<lparr>dirty := False\<rparr>) noted_saved_world)"
    by code_simp
  have dm: "distinct (map fst [(''version'', PyStr ''0.9.0'')]) \<and>
            map_of [(''version'', PyStr ''0.9.0'')] ''version'' = Some (PyStr ''0.9.0'') \<and>
            ''old.treemendous'' \<noteq> []"
    by simp
  note created = save_writes_manifest [where d = 5 and lim = 4300 and created = None
      and ?w0.0 = empty_world and ?t0.0 = empty_doc and ?w0' = empty_world
      and ops = "[Add CHILD (Some ''TP'') None, SetNotes ''a phrase'']"
      and t = edited_doc and w = edited_world and path = "Some ''new.treemendous''"
      and t' = new_saved_doc and w' = new_saved_world, THEN conjunct2, THEN conjunct1]
  note opened = save_writes_manifest [where d = 5 and lim = 4300
      and p = "''old.treemendous''" and ?w0.0 = old_world and ?t0.0 = loaded_tree
      and ?w0' = loaded_world and mf = "[(''version'', PyStr ''0.9.0'')]"
      and tree_json = "Payload (PyDict [(''label'', PyStr ''TP'')])"
      and v = "PyStr ''0.9.0''" and ops = "[SetNotes ''seen'']"
      and t = noted_tree and w = loaded_world and path = None
      and t' = "noted_tree\<lparr>dirty := False\<rparr>" and w' = noted_saved_world,
      THEN conjunct2, THEN conjunct2]
  from created c r s have c1: "\<exists>m rcd. map_of (files new_saved_world) (last_path new_saved_doc)
              = Some (Zip (Payload m) (Payload rcd)) \<and>
            dict_get m ''version'' = PyStr version"
    by blast
  from opened l f r' s' dm have c2:
    "\<exists>m rcd. map_of (files noted_saved_world) (last_path (noted_tree\<lparr>dirty := False\<rparr>))
              = Some (Zip (Payload m) (Payload rcd)) \<and>
            dict_get m ''version'' = PyStr ''0.9.0''"
    by blast
  from c r s c1 l f r' s' c2 show ?thesis by blast
qed

end
